theory Spec2Isabelle
  imports Main
begin

section \<open>Strings\<close>

text \<open>
  A JavaScript string is a sequence of UTF-16 code units. A code unit is modelled as a
  natural number, a string as the list of its code units, so that \<open>length\<close>,
  \<open>take\<close> and \<open>drop\<close> count what \<open>.length\<close>, \<open>.substring\<close> and \<open>.slice\<close> count.
  No arithmetic is done on code units, so no wrap-around is involved.
  The abbreviation \<open>js\<close> writes an ASCII literal.
\<close>

type_synonym jsstring = "nat list"

abbreviation (input) js :: "string \<Rightarrow> jsstring" where
  "js s \<equiv> map of_char s"

text \<open>
  The characters matched by \<open>\s\<close> in a regular expression, which are also the ones
  removed by \<open>String.prototype.trim\<close>: WhiteSpace and LineTerminator of ECMAScript
  (TAB, LF, VT, FF, CR, SP, NBSP, U+1680, U+2000 to U+200A, U+2028, U+2029, U+202F,
  U+205F, U+3000, U+FEFF).
\<close>

definition is_ws :: "nat \<Rightarrow> bool" where
  "is_ws c \<longleftrightarrow>
     (9 \<le> c \<and> c \<le> 13) \<or> c = 32 \<or> c = 160 \<or> c = 5760 \<or> (8192 \<le> c \<and> c \<le> 8202) \<or>
     c = 8232 \<or> c = 8233 \<or> c = 8239 \<or> c = 8287 \<or> c = 12288 \<or> c = 65279"

text \<open>The characters matched by \<open>\d\<close>: the ASCII digits.\<close>

definition is_digit :: "nat \<Rightarrow> bool" where
  "is_digit c \<longleftrightarrow> 48 \<le> c \<and> c \<le> 57"

definition TAB :: nat where
  "TAB = 9"

definition SPACE :: nat where
  "SPACE = 32"

text \<open>\<open>s.trim()\<close>\<close>

definition trim :: "jsstring \<Rightarrow> jsstring" where
  "trim s = rev (dropWhile is_ws (rev (dropWhile is_ws s)))"

text \<open>
  \<open>s.split(/\s+/)\<close>: the pieces of \<open>s\<close> between maximal runs of whitespace. A run at
  the start or at the end of \<open>s\<close> gives an empty first or last piece, and the empty
  string gives the one piece \<open>""\<close>.
\<close>

function split_ws :: "jsstring \<Rightarrow> jsstring list" where
  "split_ws [] = [[]]"
| "split_ws (c # cs) =
     (if is_ws c then [] # split_ws (dropWhile is_ws cs)
      else (case split_ws cs of
              [] \<Rightarrow> [[c]]
            | t # ts \<Rightarrow> (c # t) # ts))"
  by pat_completeness auto
termination
  by (relation "measure length") (auto simp: le_imp_less_Suc length_dropWhile_le)

text \<open>\<open>s.split('\t')\<close>: the pieces of \<open>s\<close> between tabs, every tab a separator.\<close>

fun split_tab :: "jsstring \<Rightarrow> jsstring list" where
  "split_tab [] = [[]]"
| "split_tab (c # cs) =
     (if c = TAB then [] # split_tab cs
      else (case split_tab cs of
              [] \<Rightarrow> [[c]]
            | t # ts \<Rightarrow> (c # t) # ts))"

text \<open>\<open>xs.join(' ')\<close>\<close>

fun join_sp :: "jsstring list \<Rightarrow> jsstring" where
  "join_sp [] = []"
| "join_sp [x] = x"
| "join_sp (x # y # ys) = x @ SPACE # join_sp (y # ys)"

text \<open>\<open>xs[i]\<close>, which is \<open>undefined\<close> out of range.\<close>

definition at :: "'a list \<Rightarrow> nat \<Rightarrow> 'a option" where
  "at xs i = (if i < length xs then Some (xs ! i) else None)"

section \<open>Schema\<close>

definition FRC_COLUMNS :: "jsstring list" where
  "FRC_COLUMNS =
     [js ''scouterName'', js ''eventCode'', js ''matchLevel'', js ''matchNumber'',
      js ''robotPosition'', js ''teamNumber'',
      js ''autoLeave'', js ''autoFuel'', js ''autoTower'',
      js ''teleFuel'', js ''teleTower'',
      js ''defenseRating'', js ''driverRating'', js ''speedRating'',
      js ''defendedBy'', js ''robotDied'', js ''tippedOver'',
      js ''comments'']"

section \<open>Field parser\<close>

text \<open>
  \<open>fixSplitData\<close>: the loop over the index \<open>i\<close>, with \<open>newParts\<close> as accumulator.
  \<open>next && /^\d+$/.test(next)\<close> holds when \<open>parts[i + 1]\<close> is defined, not empty and
  made of digits only.
\<close>

definition numeric :: "jsstring option \<Rightarrow> bool" where
  "numeric nxt = (case nxt of None \<Rightarrow> False | Some n \<Rightarrow> n \<noteq> [] \<and> list_all is_digit n)"

function fixSplitData_loop :: "jsstring list \<Rightarrow> nat \<Rightarrow> jsstring list \<Rightarrow> jsstring list" where
  "fixSplitData_loop parts i newParts =
     (if i < length parts then
        (if parts ! i = js ''Level'' \<and> numeric (at parts (i + 1))
         then fixSplitData_loop parts (i + 1 + 1)
                (newParts @ [parts ! i @ SPACE # parts ! (i + 1)])
         else fixSplitData_loop parts (i + 1) (newParts @ [parts ! i]))
      else newParts)"
  by pat_completeness auto
termination
  by (relation "measure (\<lambda>(parts, i, newParts). length parts - i)") auto

definition fixSplitData :: "jsstring list \<Rightarrow> jsstring list" where
  "fixSplitData parts = fixSplitData_loop parts 0 []"

text \<open>
  \<open>parseFrcData\<close>. The delimiter is chosen on the trimmed text. \<open>tokens\<close> is the
  value of the variable \<open>parts\<close> after the split (and, on the whitespace path, after the repair).
\<close>

definition tabbed :: "jsstring \<Rightarrow> bool" where
  "tabbed rawText \<longleftrightarrow> TAB \<in> set (trim rawText)"

definition tokens :: "jsstring \<Rightarrow> jsstring list" where
  "tokens rawText =
     (if tabbed rawText then split_tab (trim rawText)
      else fixSplitData (split_ws (trim rawText)))"

text \<open>
  One call of the \<open>forEach\<close> callback: the column \<open>col\<close> at position \<open>index\<close> of a
  schema of \<open>n\<close> columns. \<open>parts[index] || ""\<close> is written out.
\<close>

definition assign_col ::
  "bool \<Rightarrow> jsstring list \<Rightarrow> nat \<Rightarrow> nat \<times> jsstring \<Rightarrow> (jsstring \<rightharpoonup> jsstring) \<Rightarrow> (jsstring \<rightharpoonup> jsstring)"
where
  "assign_col tb parts n ic data =
     (let index = fst ic; col = snd ic in
      if index < length parts then
        (if index = n - 1 then
           (if tb then data(col \<mapsto> (if parts ! index = [] then [] else parts ! index))
            else data(col \<mapsto> join_sp (drop index parts)))
         else data(col \<mapsto> parts ! index))
      else data)"

definition map_columns :: "jsstring list \<Rightarrow> bool \<Rightarrow> jsstring list \<Rightarrow> (jsstring \<rightharpoonup> jsstring)" where
  "map_columns cols tb parts =
     fold (assign_col tb parts (length cols)) (enumerate 0 cols) Map.empty"

definition parseFrcData :: "jsstring \<Rightarrow> (jsstring \<rightharpoonup> jsstring)" where
  "parseFrcData rawText = map_columns FRC_COLUMNS (tabbed rawText) (tokens rawText)"

section \<open>Records and the record store\<close>

datatype status = Pending | Sending | Sent | Error

text \<open>
  \<open>ScanRecord\<close>. The field \<open>id\<close> is \<open>id_rec\<close> here. An optional field is an
  \<open>option\<close>; the \<open>parsed\<close> object is a map from keys to strings.
\<close>

record ScanRecord =
  id_rec :: int
  timestamp :: jsstring
  raw :: jsstring
  parsed :: "(jsstring \<rightharpoonup> jsstring) option"
  displayData :: jsstring
  status :: status
  errorMsg :: "jsstring option"

text \<open>
  A property read is \<open>undefined\<close> (\<open>None\<close>) or a string. \<open>truthy\<close> is its value as a
  condition, \<open>or_else v d\<close> is \<open>v || d\<close>, and \<open>tmpl\<close> is its text inside a template
  literal.
\<close>

definition truthy :: "jsstring option \<Rightarrow> bool" where
  "truthy v = (case v of None \<Rightarrow> False | Some s \<Rightarrow> s \<noteq> [])"

definition or_else :: "jsstring option \<Rightarrow> jsstring \<Rightarrow> jsstring" where
  "or_else v d = (case v of None \<Rightarrow> d | Some s \<Rightarrow> if s = [] then d else s)"

definition tmpl :: "jsstring option \<Rightarrow> jsstring" where
  "tmpl v = (case v of None \<Rightarrow> js ''undefined'' | Some s \<Rightarrow> s)"

section \<open>Deduplication\<close>

definition generateRecordKey :: "(jsstring \<rightharpoonup> jsstring) option \<Rightarrow> jsstring \<Rightarrow> jsstring" where
  "generateRecordKey p rawText =
     (case p of
        None \<Rightarrow> take 100 rawText
      | Some m \<Rightarrow>
          if truthy (m (js ''matchNumber'')) \<and> truthy (m (js ''teamNumber''))
             \<and> truthy (m (js ''scouterName''))
          then or_else (m (js ''eventCode'')) [] @ js ''-'' @
               or_else (m (js ''matchLevel'')) [] @ js ''-'' @
               tmpl (m (js ''matchNumber'')) @ js ''-'' @
               tmpl (m (js ''teamNumber'')) @ js ''-'' @
               tmpl (m (js ''scouterName''))
          else take 100 rawText)"

definition isDuplicateRecord ::
  "ScanRecord list \<Rightarrow> (jsstring \<rightharpoonup> jsstring) option \<Rightarrow> jsstring \<Rightarrow> ScanRecord option"
where
  "isDuplicateRecord scanHistory p rawText =
     (let newKey = generateRecordKey p rawText in
      find (\<lambda>record. generateRecordKey (parsed record) (raw record) = newKey) scanHistory)"

section \<open>Payload normalisation\<close>

text \<open>
  \<open>data.trim().replace(/(\r\n|\n|\r)/gm, "")\<close>: every CR and every LF is removed from
  the trimmed text.
\<close>

definition normalizedData :: "jsstring \<Rightarrow> jsstring" where
  "normalizedData d = filter (\<lambda>c. c \<noteq> 10 \<and> c \<noteq> 13) (trim d)"

text \<open>
  The decompression library is outside the program: \<open>window.LZString\<close> may be missing
  (\<open>None\<close>), and a call of \<open>decompressFromBase64\<close> throws, or returns \<open>null\<close> or a
  string.
\<close>

datatype lz_result = LZ_throws | LZ_returns "jsstring option"

definition processedData :: "bool \<Rightarrow> (jsstring \<Rightarrow> lz_result) option \<Rightarrow> jsstring \<Rightarrow> jsstring" where
  "processedData useLZ LZString d =
     (let nd = normalizedData d in
      case LZString of
        None \<Rightarrow> nd
      | Some decompressFromBase64 \<Rightarrow>
          (case decompressFromBase64 nd of
             LZ_throws \<Rightarrow> nd
           | LZ_returns None \<Rightarrow> nd
           | LZ_returns (Some decompressed) \<Rightarrow>
               if decompressed \<noteq> [] then
                 (let rawHasSpaces = (SPACE \<in> set nd);
                      decompressedHasSpaces = (SPACE \<in> set decompressed)
                  in if useLZ \<or> (\<not> rawHasSpaces \<and> decompressedHasSpaces)
                     then decompressed else nd)
               else nd))"

section \<open>Ingestion\<close>

text \<open>
  The toast shown by \<open>handleScan\<close>: the warning carries \<open>matchInfo\<close>, the constant
  prefix of the message is left out.
\<close>

datatype notification = Warning jsstring | Success

definition matchInfo :: "(jsstring \<rightharpoonup> jsstring) \<Rightarrow> jsstring" where
  "matchInfo p =
     (if truthy (p (js ''matchNumber'')) \<and> truthy (p (js ''teamNumber''))
      then or_else (p (js ''matchLevel'')) [] @ tmpl (p (js ''matchNumber'')) @
           js '' / Team '' @ tmpl (p (js ''teamNumber''))
      else 27492 # js '' QR Code'')"

definition preview :: "(jsstring \<rightharpoonup> jsstring) \<Rightarrow> jsstring \<Rightarrow> jsstring" where
  "preview p pd =
     (if truthy (p (js ''scouterName'')) \<and> truthy (p (js ''matchNumber''))
         \<and> truthy (p (js ''teamNumber''))
      then
        (let base = tmpl (p (js ''scouterName'')) @ js '' | '' @ tmpl (p (js ''matchLevel'')) @
                    tmpl (p (js ''matchNumber'')) @ js '' | T:'' @ tmpl (p (js ''teamNumber''))
         in if truthy (p (js ''comments''))
            then (let comments = tmpl (p (js ''comments''));
                      shortComment = (if length comments > 8 then take 8 comments @ js ''..''
                                      else comments)
                  in base @ js '' | '' @ [55357, 56492] @ js '' '' @ shortComment)
            else base)
      else (if length pd > 50 then take 50 pd @ js ''...'' else pd))"

text \<open>
  \<open>handleScan\<close>. It reads two histories: \<open>scanHistory\<close> is the variable of the
  closure, the history of the render in which this \<open>handleScan\<close> was made, and is the
  one searched for a duplicate; \<open>prev\<close> is the argument of the state update
  \<open>setScanHistory(prev => [newRecord, ...prev])\<close>, the history at the time the update
  is applied. \<open>now\<close> is the value of \<open>Date.now()\<close>, \<open>timeString\<close> that of
  \<open>new Date().toLocaleTimeString()\<close>. The result is the new history, the toast, and
  the record handed to \<open>uploadData\<close>, if any.
\<close>

definition handleScan ::
  "bool \<Rightarrow> (jsstring \<Rightarrow> lz_result) option \<Rightarrow> int \<Rightarrow> jsstring \<Rightarrow> jsstring \<Rightarrow> ScanRecord list
   \<Rightarrow> ScanRecord list \<Rightarrow> ScanRecord list \<times> notification \<times> ScanRecord option"
where
  "handleScan useLZ LZString now timeString d scanHistory prev =
     (let pd = processedData useLZ LZString d;
          p = parseFrcData pd
      in case isDuplicateRecord scanHistory (Some p) pd of
           Some existingRecord \<Rightarrow> (prev, Warning (matchInfo p), None)
         | None \<Rightarrow>
             (let newRecord = \<lparr> id_rec = now, timestamp = timeString, raw = pd,
                                parsed = Some p, displayData = preview p pd,
                                status = Pending, errorMsg = None \<rparr>
              in (newRecord # prev, Success, Some newRecord)))"

section \<open>Upload\<close>

definition updateRecordStatus ::
  "int \<Rightarrow> status \<Rightarrow> jsstring option \<Rightarrow> ScanRecord list \<Rightarrow> ScanRecord list"
where
  "updateRecordStatus i st msg prev =
     map (\<lambda>r. if id_rec r = i then r\<lparr>status := st, errorMsg := msg\<rparr> else r) prev"

text \<open>The columns sent for a record, and the text rebuilt from them.\<close>

definition cols :: "ScanRecord \<Rightarrow> jsstring list" where
  "cols record =
     (case parsed record of
        Some p \<Rightarrow> map (\<lambda>key. case p key of None \<Rightarrow> [] | Some val \<Rightarrow> val) FRC_COLUMNS
      | None \<Rightarrow> fixSplitData (split_ws (trim (raw record))))"

definition simulatedRaw :: "ScanRecord \<Rightarrow> jsstring" where
  "simulatedRaw record = join_sp (cols record)"

text \<open>
  The request given to \<open>fetch\<close>: the endpoint, the \<open>raw\<close> parameter and the columns
  that \<open>jsonCols\<close> encodes (the \<open>timestamp\<close> parameter, the time of sending, is left
  out). The call resolves, or rejects with an error whose \<open>message\<close> may be missing.
\<close>

record request =
  url :: jsstring
  raw_param :: jsstring
  jsonCols :: "jsstring list"

datatype fetch_result = Resolved | Rejected "jsstring option"

text \<open>
  \<open>uploadData\<close> up to the call of \<open>fetch\<close>: the new history and the request issued,
  if any.
\<close>

definition uploadData_send ::
  "jsstring \<Rightarrow> ScanRecord \<Rightarrow> ScanRecord list \<Rightarrow> ScanRecord list \<times> request option"
where
  "uploadData_send scriptUrl record scanHistory =
     (if scriptUrl = [] then (scanHistory, None)
      else (updateRecordStatus (id_rec record) Sending None scanHistory,
            Some \<lparr> url = scriptUrl, raw_param = simulatedRaw record, jsonCols = cols record \<rparr>))"

text \<open>\<open>uploadData\<close> after \<open>fetch\<close> has settled.\<close>

definition uploadData_settle ::
  "ScanRecord \<Rightarrow> fetch_result \<Rightarrow> ScanRecord list \<Rightarrow> ScanRecord list"
where
  "uploadData_settle record res scanHistory =
     (case res of
        Resolved \<Rightarrow> updateRecordStatus (id_rec record) Sent None scanHistory
      | Rejected message \<Rightarrow>
          updateRecordStatus (id_rec record) Error
            (Some (or_else message (js ''Network Error''))) scanHistory)"

text \<open>A whole run of \<open>uploadData\<close> with nothing else in between.\<close>

definition uploadData ::
  "jsstring \<Rightarrow> (request \<Rightarrow> fetch_result) \<Rightarrow> ScanRecord \<Rightarrow> ScanRecord list
   \<Rightarrow> ScanRecord list \<times> request option"
where
  "uploadData scriptUrl fetch record scanHistory =
     (case uploadData_send scriptUrl record scanHistory of
        (h, None) \<Rightarrow> (h, None)
      | (h, Some req) \<Rightarrow> (uploadData_settle record (fetch req) h, Some req))"


definition clearHistory :: "bool \<Rightarrow> ScanRecord list \<Rightarrow> ScanRecord list" where
  "clearHistory confirmed scanHistory = (if confirmed then [] else scanHistory)"

text \<open>
  A run of the store: scans and clears, in order. A scan comes with its text, its clock
  reading, its time string and the history held by the closure of \<open>handleScan\<close> that
  is called. The state is the history and the ids assigned so far, newest first.
\<close>

datatype event = Scan jsstring int jsstring "ScanRecord list" | Clear bool

fun run ::
  "bool \<Rightarrow> (jsstring \<Rightarrow> lz_result) option \<Rightarrow> event list \<Rightarrow> ScanRecord list \<times> int list
   \<Rightarrow> ScanRecord list \<times> int list"
where
  "run useLZ LZString [] s = s"
| "run useLZ LZString (Scan d now timeString scanHistory # es) (h, issued) =
     (case handleScan useLZ LZString now timeString d scanHistory h of
        (h', _, None) \<Rightarrow> run useLZ LZString es (h', issued)
      | (h', _, Some r) \<Rightarrow> run useLZ LZString es (h', id_rec r # issued))"
| "run useLZ LZString (Clear confirmed # es) (h, issued) =
     run useLZ LZString es (clearHistory confirmed h, issued)"

text \<open>The clock readings of the scans of a run, in order.\<close>

fun clock :: "event list \<Rightarrow> int list" where
  "clock [] = []"
| "clock (Scan d now timeString scanHistory # es) = now # clock es"
| "clock (Clear confirmed # es) = clock es"

section \<open>The repair loop as a recursion on the tokens\<close>

declare fixSplitData_loop.simps [simp del]

lemma at_Cons_Suc: "at (x # xs) (Suc i) = at xs i"
  by (simp add: at_def)

lemma loop_shift: "fixSplitData_loop (x # xs) (Suc j) acc = fixSplitData_loop xs j acc"
proof (induction xs j acc rule: fixSplitData_loop.induct)
  case (1 parts i newParts)
  note L = fixSplitData_loop.simps[of "x # parts" "Suc i" newParts]
  note R = fixSplitData_loop.simps[of parts i newParts]
  show ?case
  proof (cases "i < length parts")
    case True
    show ?thesis
    proof (cases "parts ! i = js ''Level'' \<and> numeric (at parts (i + 1))")
      case m: True
      show ?thesis
        apply (subst L, subst R)
        using 1(1)[OF True m] True m by (auto simp add: at_Cons_Suc)
    next
      case m: False
      show ?thesis
        apply (subst L, subst R)
        using 1(2)[OF True m] True m by (auto simp add: at_Cons_Suc)
    qed
  next
    case False
    then show ?thesis by (subst L, subst R) simp
  qed
qed

lemma loop_acc: "fixSplitData_loop parts i acc = acc @ fixSplitData_loop parts i []"
proof (induction "length parts - i" arbitrary: i acc rule: less_induct)
  case less
  note L = fixSplitData_loop.simps[of parts i acc]
  note R = fixSplitData_loop.simps[of parts i "[]"]
  show ?case
  proof (cases "i < length parts")
    case True
    then have d1: "length parts - Suc i < length parts - i"
      and d2: "length parts - Suc (Suc i) < length parts - i"
      by arith+
    have a: "fixSplitData_loop parts (Suc i) (acc @ [t]) =
          acc @ [t] @ fixSplitData_loop parts (Suc i) []" for t
      using less[OF d1, of "acc @ [t]"] by simp
    have b: "fixSplitData_loop parts (Suc i) [t] =
          [t] @ fixSplitData_loop parts (Suc i) []" for t
      using less[OF d1, of "[t]"] by simp
    have c: "fixSplitData_loop parts (Suc (Suc i)) (acc @ [t]) =
          acc @ [t] @ fixSplitData_loop parts (Suc (Suc i)) []" for t
      using less[OF d2, of "acc @ [t]"] by simp
    have d: "fixSplitData_loop parts (Suc (Suc i)) [t] =
          [t] @ fixSplitData_loop parts (Suc (Suc i)) []" for t
      using less[OF d2, of "[t]"] by simp
    show ?thesis
      apply (subst L, subst R)
      using True by (simp add: a c) (simp add: b d)
  next
    case False
    then show ?thesis by (subst L, subst R) simp
  qed
qed

lemma fixSplitData_Nil: "fixSplitData [] = []"
  by (simp add: fixSplitData_def fixSplitData_loop.simps[of "[]" 0 "[]"])

lemma fixSplitData_single: "fixSplitData [c] = [c]"
  by (simp add: fixSplitData_def fixSplitData_loop.simps[of "[c]"] numeric_def at_def)

lemma fixSplitData_Cons2:
  "fixSplitData (c # n # rest) =
     (if c = js ''Level'' \<and> n \<noteq> [] \<and> list_all is_digit n
      then (c @ SPACE # n) # fixSplitData rest
      else c # fixSplitData (n # rest))"
  unfolding fixSplitData_def
  by (subst fixSplitData_loop.simps)
     (simp add: numeric_def at_def loop_shift loop_acc[of _ _ "[_]"])

lemmas fixSplitData_eqs = fixSplitData_Nil fixSplitData_single fixSplitData_Cons2

lemma fixSplitData_merge:
  assumes "n \<noteq> []" "list_all is_digit n"
  shows "fixSplitData (pre @ js ''Level'' # n # post) =
         fixSplitData pre @ (js ''Level'' @ SPACE # n) # fixSplitData post"
proof (induction pre rule: length_induct)
  case (1 pre)
  have lev: "\<not> list_all is_digit (js ''Level'')"
    by (simp add: is_digit_def)
  show ?case
  proof (cases pre)
    case Nil
    with assms show ?thesis by (simp add: fixSplitData_eqs)
  next
    case (Cons c pre1)
    show ?thesis
    proof (cases pre1)
      case Nil
      with Cons assms lev 1 show ?thesis
        by (auto simp add: fixSplitData_eqs)
    next
      case (Cons m pre2)
      have ih1: "fixSplitData (m # pre2 @ js ''Level'' # n # post) =
          fixSplitData (m # pre2) @ (js ''Level'' @ SPACE # n) # fixSplitData post"
        using 1 \<open>pre = c # pre1\<close> Cons by (metis append_Cons length_Cons lessI)
      have ih2: "fixSplitData (pre2 @ js ''Level'' # n # post) =
          fixSplitData pre2 @ (js ''Level'' @ SPACE # n) # fixSplitData post"
        using 1 \<open>pre = c # pre1\<close> Cons by simp
      from \<open>pre = c # pre1\<close> Cons ih1 ih2 show ?thesis
        by (simp add: fixSplitData_Cons2)
    qed
  qed
qed

lemma assign_col_other: "c \<noteq> snd ic \<Longrightarrow> assign_col tb parts n ic data c = data c"
  by (simp add: assign_col_def Let_def)

lemma fold_assign_other:
  "k \<notin> set xs \<Longrightarrow> fold (assign_col tb parts N) (enumerate n xs) m k = m k"
  by (induction xs arbitrary: n m) (auto simp: assign_col_other)

lemma assign_col_self:
  "assign_col tb parts N (i, c) data c =
     (if i < length parts then
        Some (if i = N - 1 then (if tb then parts ! i else join_sp (drop i parts)) else parts ! i)
      else data c)"
  by (simp add: assign_col_def Let_def)

lemma fold_assign_nth:
  "distinct xs \<Longrightarrow> j < length xs \<Longrightarrow>
   fold (assign_col tb parts N) (enumerate n xs) m (xs ! j) =
     assign_col tb parts N (n + j, xs ! j) m (xs ! j)"
proof (induction xs arbitrary: n m j)
  case Nil
  then show ?case by simp
next
  case (Cons x xs)
  show ?case
  proof (cases j)
    case 0
    with Cons.prems show ?thesis by (simp add: fold_assign_other)
  next
    case (Suc j')
    with Cons.prems have d: "distinct xs" and l: "j' < length xs" and ne: "xs ! j' \<noteq> x"
      by auto
    from Cons.IH[OF d l, of "Suc n" "assign_col tb parts N (n, x) m"] Suc ne
    show ?thesis by (simp add: assign_col_self assign_col_other)
  qed
qed

lemma distinct_FRC_COLUMNS: "distinct FRC_COLUMNS"
  by (simp add: FRC_COLUMNS_def)

lemma length_FRC_COLUMNS: "length FRC_COLUMNS = 18"
  by (simp add: FRC_COLUMNS_def)

lemma map_columns_nth:
  "distinct cs \<Longrightarrow> i < length cs \<Longrightarrow>
   map_columns cs tb parts (cs ! i) =
     (if i < length parts then
        Some (if i = length cs - 1 then (if tb then parts ! i else join_sp (drop i parts))
              else parts ! i)
      else None)"
  by (simp add: map_columns_def fold_assign_nth assign_col_self)

lemma map_columns_other: "k \<notin> set cs \<Longrightarrow> map_columns cs tb parts k = None"
  by (simp add: map_columns_def fold_assign_other)

lemma dom_map_columns:
  assumes "distinct cs"
  shows "dom (map_columns cs tb parts) = set (take (length parts) cs)"
proof (rule set_eqI)
  fix k
  show "k \<in> dom (map_columns cs tb parts) \<longleftrightarrow> k \<in> set (take (length parts) cs)"
  proof (cases "k \<in> set cs")
    case False
    then have "k \<notin> set (take (length parts) cs)"
      by (auto dest: in_set_takeD)
    with False show ?thesis by (simp add: map_columns_other dom_def)
  next
    case True
    then obtain i where i: "i < length cs" "cs ! i = k"
      by (auto simp: in_set_conv_nth)
    have "k \<in> set (take (length parts) cs) \<longleftrightarrow> i < length parts"
    proof
      assume "k \<in> set (take (length parts) cs)"
      then obtain j where j: "j < length (take (length parts) cs)" "take (length parts) cs ! j = k"
        by (auto simp: in_set_conv_nth)
      then have "cs ! j = k" "j < length cs" "j < length parts" by auto
      with i assms have "j = i" by (metis nth_eq_iff_index_eq)
      with \<open>j < length parts\<close> show "i < length parts" by simp
    next
      assume "i < length parts"
      with i show "k \<in> set (take (length parts) cs)"
        by (auto simp: in_set_conv_nth intro!: exI[of _ i])
    qed
    moreover from map_columns_nth[OF assms i(1), of tb parts] i(2)
    have "k \<in> dom (map_columns cs tb parts) \<longleftrightarrow> i < length parts"
      by (auto simp: dom_def)
    ultimately show ?thesis by simp
  qed
qed

section \<open>Field parser: claims\<close>

lemmas parse_eval =
  parseFrcData_def tokens_def tabbed_def trim_def is_ws_def is_digit_def TAB_def SPACE_def
  fixSplitData_eqs

lemma set_trim_subset: "set (trim s) \<subseteq> set s"
proof -
  have "set (trim s) = set (dropWhile is_ws (rev (dropWhile is_ws s)))"
    by (simp add: trim_def)
  also have "\<dots> \<subseteq> set (rev (dropWhile is_ws s))"
    by (rule set_dropWhileD[THEN subsetI]) 
  also have "\<dots> \<subseteq> set s"
    by (auto dest: set_dropWhileD)
  finally show ?thesis .
qed

text \<open>
  C3, amended: the delimiter is chosen on the trimmed text. A text with no tab has none
  after trimming. When the trimmed text has no tab, the tokens are the pieces between
  runs of whitespace, repaired; when the trimmed text has a tab, they are the pieces
  between tabs, unrepaired. The repair merges every token \<open>Level\<close> that is followed
  by a token of digits with that token, and goes on after it.
\<close>

theorem parse_split_and_repair:
  "(TAB \<notin> set rawText \<longrightarrow> TAB \<notin> set (trim rawText))
   \<and> (TAB \<notin> set (trim rawText) \<longrightarrow> tokens rawText = fixSplitData (split_ws (trim rawText)))
   \<and> (TAB \<in> set (trim rawText) \<longrightarrow> tokens rawText = split_tab (trim rawText))
   \<and> (n \<noteq> [] \<and> list_all is_digit n \<longrightarrow>
        fixSplitData (pre @ js ''Level'' # n # post) =
        fixSplitData pre @ (js ''Level'' @ SPACE # n) # fixSplitData post)"
  using set_trim_subset[of rawText] fixSplitData_merge[of n pre post]
  by (auto simp add: tokens_def tabbed_def)

theorem parse_split_and_repair_witness:
  "TAB \<notin> set (js ''Alice FRC123 Qual Level 2 5'')
   \<and> tokens (js ''Alice FRC123 Qual Level 2 5'') =
       [js ''Alice'', js ''FRC123'', js ''Qual'', js ''Level 2'', js ''5'']
   \<and> TAB \<in> set (trim (js ''Qual'' @ TAB # js ''Level'' @ TAB # js ''2''))
   \<and> tokens (js ''Qual'' @ TAB # js ''Level'' @ TAB # js ''2'') =
       [js ''Qual'', js ''Level'', js ''2'']
   \<and> fixSplitData ([js ''Qual''] @ js ''Level'' # js ''2'' # [js ''5'']) =
       [js ''Qual'', js ''Level 2'', js ''5'']"
  using parse_split_and_repair[of "js ''Alice FRC123 Qual Level 2 5''" "js ''2''" "[js ''Qual'']" "[js ''5'']"]
    parse_split_and_repair[of "js ''Qual'' @ TAB # js ''Level'' @ TAB # js ''2''" "js ''2''" "[]" "[]"]
  by (simp add: parse_eval)

text \<open>
  C3 as stated fails for a text whose only tab is at its end: the text contains a tab,
  and the repair is applied.
\<close>

theorem parse_tab_in_input_counterexample:
  "TAB \<in> set (js ''Level 2'' @ [TAB])
   \<and> tokens (js ''Level 2'' @ [TAB]) = [js ''Level 2'']
   \<and> split_tab (js ''Level 2'' @ [TAB]) = [js ''Level 2'', []]
   \<and> parseFrcData (js ''Level 2'' @ [TAB]) (js ''scouterName'') = Some (js ''Level 2'')"
  by (simp add: parse_eval map_columns_def assign_col_def FRC_COLUMNS_def)

text \<open>
  C4, amended: the column at position \<open>i\<close> is absent when there is no token at
  position \<open>i\<close>. Otherwise a column other than the last holds that token; the last
  column holds that token when the trimmed text has a tab, and the tokens from that
  position on, joined with single spaces, when it has none.
\<close>

theorem parse_column_mapping:
  "i < 18 \<Longrightarrow>
   parseFrcData rawText (FRC_COLUMNS ! i) =
     (if i < length (tokens rawText) then
        Some (if i = 17 then
                (if TAB \<in> set (trim rawText) then tokens rawText ! i
                 else join_sp (drop i (tokens rawText)))
              else tokens rawText ! i)
      else None)"
  using map_columns_nth[OF distinct_FRC_COLUMNS, of i "tabbed rawText" "tokens rawText"]
  by (simp add: parseFrcData_def length_FRC_COLUMNS tabbed_def)

theorem parse_column_mapping_witness:
  "(17::nat) < 18
   \<and> FRC_COLUMNS ! 17 = js ''comments''
   \<and> parseFrcData (js ''A E Q 1 R1 254 0 1 2 3 4 5 6 7 8 9 10 fast and sturdy'')
        (js ''comments'') = Some (js ''fast and sturdy'')
   \<and> parseFrcData (js ''A E Q 1 R1 254 0 1 2 3 4 5 6 7 8 9 10 fast and sturdy'')
        (FRC_COLUMNS ! 5) = Some (js ''254'')
   \<and> parseFrcData (js ''A E Q'') (FRC_COLUMNS ! 5) = None"
  using parse_column_mapping[of 17 "js ''A E Q 1 R1 254 0 1 2 3 4 5 6 7 8 9 10 fast and sturdy''"]
    parse_column_mapping[of 5 "js ''A E Q 1 R1 254 0 1 2 3 4 5 6 7 8 9 10 fast and sturdy''"]
    parse_column_mapping[of 5 "js ''A E Q''"]
  by (simp add: parse_eval FRC_COLUMNS_def)

text \<open>
  C4 as stated fails for a text whose only tab is at its end: the text contains a tab,
  and the last column holds two tokens joined.
\<close>

theorem parse_comment_tab_in_input_counterexample:
  "TAB \<in> set (js ''a b c d e f g h i j k l m n o p q r s'' @ [TAB])
   \<and> tokens (js ''a b c d e f g h i j k l m n o p q r s'' @ [TAB]) ! 17 = js ''r''
   \<and> parseFrcData (js ''a b c d e f g h i j k l m n o p q r s'' @ [TAB]) (js ''comments'')
       = Some (js ''r s'')"
  using map_columns_nth[OF distinct_FRC_COLUMNS, of 17 False
      "tokens (js ''a b c d e f g h i j k l m n o p q r s'' @ [TAB])"]
  by (simp add: parse_eval FRC_COLUMNS_def)

section \<open>Payload normalisation: claims\<close>

text \<open>
  C2, amended: the scanned text is trimmed and its line breaks are removed. The
  decompressed form is used exactly when decompression returns a non-empty text and
  either the flag is on, or the normalised text contains no space character (U+0020)
  while the decompressed text contains one. In every other case, a throwing
  decompression included, the normalised text is kept. In particular a normalised text
  with no whitespace whose decompressed form contains a space is replaced by it with the
  flag off.
\<close>

theorem normalize_decompression_choice:
  "normalizedData d = filter (\<lambda>c. c \<noteq> 10 \<and> c \<noteq> 13) (trim d)
   \<and> (LZString = Some f \<and> f (normalizedData d) = LZ_returns (Some dec) \<and> dec \<noteq> []
        \<and> (useLZ \<or> (SPACE \<notin> set (normalizedData d) \<and> SPACE \<in> set dec))
       \<longrightarrow> processedData useLZ LZString d = dec)
   \<and> (\<not> (\<exists>g dec'. LZString = Some g \<and> g (normalizedData d) = LZ_returns (Some dec')
              \<and> dec' \<noteq> []
              \<and> (useLZ \<or> (SPACE \<notin> set (normalizedData d) \<and> SPACE \<in> set dec')))
       \<longrightarrow> processedData useLZ LZString d = normalizedData d)
   \<and> (LZString = Some f \<and> f (normalizedData d) = LZ_throws
       \<longrightarrow> processedData useLZ LZString d = normalizedData d)
   \<and> (LZString = Some f \<and> f (normalizedData d) = LZ_returns (Some dec)
        \<and> \<not> list_ex is_ws (normalizedData d) \<and> SPACE \<in> set dec
       \<longrightarrow> processedData False LZString d = dec)"
proof -
  have sp: "is_ws SPACE" by (simp add: is_ws_def SPACE_def)
  have a: "\<not> list_ex is_ws s \<Longrightarrow> SPACE \<notin> set s" for s
    using sp by (auto simp: list_ex_iff)
  have n: "normalizedData d = filter (\<lambda>c. c \<noteq> 10 \<and> c \<noteq> 13) (trim d)"
    by (simp add: normalizedData_def)
  show ?thesis
    apply (intro conjI)
        apply (rule n)
       apply (simp add: processedData_def Let_def)
      apply (auto simp add: processedData_def Let_def split: option.splits lz_result.splits)[1]
     apply (simp add: processedData_def Let_def)
    apply (auto simp add: processedData_def Let_def a)
    done
qed

theorem normalize_decompression_choice_witness:
  "processedData False (Some (\<lambda>s. LZ_returns (Some (js ''Alice FRC123 Qual 1''))))
      (js '' IwBgNg7A== '' @ [10]) = js ''Alice FRC123 Qual 1''
   \<and> processedData False (Some (\<lambda>s. LZ_throws)) (js '' Alice FRC123 '' @ [13, 10])
      = js ''Alice FRC123''
   \<and> processedData False (Some (\<lambda>s. LZ_returns (Some (js ''x y'')))) (js ''Alice FRC123'')
      = js ''Alice FRC123''
   \<and> processedData True (Some (\<lambda>s. LZ_returns (Some (js ''x y'')))) (js ''Alice FRC123'')
      = js ''x y''"
  using normalize_decompression_choice[of "js '' IwBgNg7A== '' @ [10]" "Some (\<lambda>s. LZ_returns (Some (js ''Alice FRC123 Qual 1'')))"
      "\<lambda>s. LZ_returns (Some (js ''Alice FRC123 Qual 1''))" "js ''Alice FRC123 Qual 1''" False]
    normalize_decompression_choice[of "js '' Alice FRC123 '' @ [13, 10]" "Some (\<lambda>s. LZ_throws)"
      "\<lambda>s. LZ_throws" "[]" False]
    normalize_decompression_choice[of "js ''Alice FRC123''" "Some (\<lambda>s. LZ_returns (Some (js ''x y'')))"
      "\<lambda>s. LZ_returns (Some (js ''x y''))" "js ''x y''" False]
    normalize_decompression_choice[of "js ''Alice FRC123''" "Some (\<lambda>s. LZ_returns (Some (js ''x y'')))"
      "\<lambda>s. LZ_returns (Some (js ''x y''))" "js ''x y''" True]
  by (simp add: trim_def is_ws_def SPACE_def)

text \<open>
  C2 as stated fails when the whitespace of the decompressed text is not a space:
  with the flag off, a payload with no whitespace whose decompressed form is
  tab-separated is kept as it is.
\<close>

theorem normalize_tab_whitespace_counterexample:
  "\<not> list_ex is_ws (normalizedData (js ''IwBgNg7A''))
   \<and> list_ex is_ws (js ''Alice'' @ TAB # js ''FRC123'')
   \<and> js ''Alice'' @ TAB # js ''FRC123'' \<noteq> []
   \<and> processedData False (Some (\<lambda>s. LZ_returns (Some (js ''Alice'' @ TAB # js ''FRC123''))))
        (js ''IwBgNg7A'') = js ''IwBgNg7A''"
  by (simp add: processedData_def normalizedData_def trim_def is_ws_def SPACE_def TAB_def)

section \<open>Deduplication: claims\<close>

lemma isDuplicateRecord_None_iff:
  "isDuplicateRecord h p rawText = None \<longleftrightarrow>
     (\<forall>r \<in> set h. generateRecordKey (parsed r) (raw r) \<noteq> generateRecordKey p rawText)"
  by (auto simp add: isDuplicateRecord_def Let_def find_None_iff)

lemma handleScan_duplicate:
  "\<exists>r \<in> set scanHistory. generateRecordKey (parsed r) (raw r) =
       generateRecordKey (Some (parseFrcData (processedData useLZ LZString d)))
         (processedData useLZ LZString d) \<Longrightarrow>
   handleScan useLZ LZString now ts d scanHistory prev =
     (prev, Warning (matchInfo (parseFrcData (processedData useLZ LZString d))), None)"
  using isDuplicateRecord_None_iff[of scanHistory
      "Some (parseFrcData (processedData useLZ LZString d))" "processedData useLZ LZString d"]
  by (auto simp add: handleScan_def Let_def split: option.splits)

lemma handleScan_fresh:
  "\<forall>r \<in> set scanHistory. generateRecordKey (parsed r) (raw r) \<noteq>
       generateRecordKey (Some (parseFrcData (processedData useLZ LZString d)))
         (processedData useLZ LZString d) \<Longrightarrow>
   handleScan useLZ LZString now ts d scanHistory prev =
     (let pd = processedData useLZ LZString d; p = parseFrcData pd;
          newRecord = \<lparr> id_rec = now, timestamp = ts, raw = pd, parsed = Some p,
                        displayData = preview p pd, status = Pending, errorMsg = None \<rparr>
      in (newRecord # prev, Success, Some newRecord))"
  using isDuplicateRecord_None_iff[of scanHistory
      "Some (parseFrcData (processedData useLZ LZString d))" "processedData useLZ LZString d"]
  by (simp add: handleScan_def Let_def)

lemma handleScan_key_present:
  "\<exists>r \<in> set (fst (handleScan useLZ LZString now ts d h h)).
      generateRecordKey (parsed r) (raw r) =
        generateRecordKey (Some (parseFrcData (processedData useLZ LZString d)))
          (processedData useLZ LZString d)"
proof (cases "\<exists>r \<in> set h. generateRecordKey (parsed r) (raw r) =
       generateRecordKey (Some (parseFrcData (processedData useLZ LZString d)))
         (processedData useLZ LZString d)")
  case True
  then show ?thesis by (simp add: handleScan_duplicate)
next
  case False
  then show ?thesis by (simp add: handleScan_fresh Let_def)
qed

text \<open>
  C1, amended: when the parsed map has non-empty \<open>matchNumber\<close>, \<open>teamNumber\<close> and
  \<open>scouterName\<close>, the key is \<open>eventCode\<close>, \<open>matchLevel\<close>, \<open>matchNumber\<close>,
  \<open>teamNumber\<close> and \<open>scouterName\<close> in this order with a hyphen between neighbours, an
  absent or empty \<open>eventCode\<close> or \<open>matchLevel\<close> giving the empty text; otherwise it is
  the first 100 code units of the raw text. When a record of the history that
  \<open>handleScan\<close> searches has the key of the scanned payload, \<open>handleScan\<close> leaves the
  store as it is and hands no record to \<open>uploadData\<close>; so a second payload with the key
  of the first, scanned against the history left by the first, adds nothing, and a key
  that was new is the key of exactly one record afterwards.
\<close>

theorem dedup_key_and_gate:
  "(m (js ''matchNumber'') = Some mn \<and> mn \<noteq> [] \<and> m (js ''teamNumber'') = Some tn \<and> tn \<noteq> []
      \<and> m (js ''scouterName'') = Some sn \<and> sn \<noteq> []
     \<longrightarrow> generateRecordKey (Some m) rawText =
           or_else (m (js ''eventCode'')) [] @ js ''-'' @
           or_else (m (js ''matchLevel'')) [] @ js ''-'' @ mn @ js ''-'' @ tn @ js ''-'' @ sn)
   \<and> (\<not> (truthy (m (js ''matchNumber'')) \<and> truthy (m (js ''teamNumber''))
           \<and> truthy (m (js ''scouterName'')))
     \<longrightarrow> generateRecordKey (Some m) rawText = take 100 rawText)
   \<and> generateRecordKey None rawText = take 100 rawText
   \<and> ((\<exists>r \<in> set scanHistory. generateRecordKey (parsed r) (raw r) =
          generateRecordKey (Some (parseFrcData (processedData useLZ LZString d)))
            (processedData useLZ LZString d))
     \<longrightarrow> handleScan useLZ LZString now ts d scanHistory prev =
           (prev, Warning (matchInfo (parseFrcData (processedData useLZ LZString d))), None))
   \<and> (generateRecordKey (Some (parseFrcData (processedData useLZ LZString d')))
          (processedData useLZ LZString d') =
        generateRecordKey (Some (parseFrcData (processedData useLZ LZString d)))
          (processedData useLZ LZString d)
     \<longrightarrow> handleScan useLZ LZString now' ts' d'
           (fst (handleScan useLZ LZString now ts d h h))
           (fst (handleScan useLZ LZString now ts d h h)) =
           (fst (handleScan useLZ LZString now ts d h h),
            Warning (matchInfo (parseFrcData (processedData useLZ LZString d'))), None))
   \<and> ((\<forall>r \<in> set h. generateRecordKey (parsed r) (raw r) \<noteq>
          generateRecordKey (Some (parseFrcData (processedData useLZ LZString d)))
            (processedData useLZ LZString d))
     \<longrightarrow> length (filter (\<lambda>r. generateRecordKey (parsed r) (raw r) =
              generateRecordKey (Some (parseFrcData (processedData useLZ LZString d)))
                (processedData useLZ LZString d))
            (fst (handleScan useLZ LZString now' ts' d
                   (fst (handleScan useLZ LZString now ts d h h))
                   (fst (handleScan useLZ LZString now ts d h h))))) = 1)"
proof (intro conjI impI)
  assume "m (js ''matchNumber'') = Some mn \<and> mn \<noteq> [] \<and> m (js ''teamNumber'') = Some tn
    \<and> tn \<noteq> [] \<and> m (js ''scouterName'') = Some sn \<and> sn \<noteq> []"
  then show "generateRecordKey (Some m) rawText =
           or_else (m (js ''eventCode'')) [] @ js ''-'' @
           or_else (m (js ''matchLevel'')) [] @ js ''-'' @ mn @ js ''-'' @ tn @ js ''-'' @ sn"
    by (simp add: generateRecordKey_def truthy_def tmpl_def)
next
  assume "\<not> (truthy (m (js ''matchNumber'')) \<and> truthy (m (js ''teamNumber''))
           \<and> truthy (m (js ''scouterName'')))"
  then show "generateRecordKey (Some m) rawText = take 100 rawText"
    by (auto simp add: generateRecordKey_def)
next
  show "generateRecordKey None rawText = take 100 rawText"
    by (simp add: generateRecordKey_def)
next
  assume "\<exists>r \<in> set scanHistory. generateRecordKey (parsed r) (raw r) =
          generateRecordKey (Some (parseFrcData (processedData useLZ LZString d)))
            (processedData useLZ LZString d)"
  then show "handleScan useLZ LZString now ts d scanHistory prev =
           (prev, Warning (matchInfo (parseFrcData (processedData useLZ LZString d))), None)"
    by (rule handleScan_duplicate)
next
  let ?h1 = "fst (handleScan useLZ LZString now ts d h h)"
  assume eq: "generateRecordKey (Some (parseFrcData (processedData useLZ LZString d')))
          (processedData useLZ LZString d') =
        generateRecordKey (Some (parseFrcData (processedData useLZ LZString d)))
          (processedData useLZ LZString d)"
  show "handleScan useLZ LZString now' ts' d' ?h1 ?h1 =
           (?h1, Warning (matchInfo (parseFrcData (processedData useLZ LZString d'))), None)"
    using handleScan_key_present[of useLZ LZString now ts d h] eq
    by (intro handleScan_duplicate) simp
next
  let ?K = "generateRecordKey (Some (parseFrcData (processedData useLZ LZString d)))
            (processedData useLZ LZString d)"
  let ?h1 = "fst (handleScan useLZ LZString now ts d h h)"
  assume fresh: "\<forall>r \<in> set h. generateRecordKey (parsed r) (raw r) \<noteq> ?K"
  have second: "fst (handleScan useLZ LZString now' ts' d ?h1 ?h1) = ?h1"
    using handleScan_key_present[of useLZ LZString now ts d h]
    by (simp add: handleScan_duplicate)
  from fresh have none: "filter (\<lambda>r. generateRecordKey (parsed r) (raw r) = ?K) h = []"
    by (simp add: filter_empty_conv)
  show "length (filter (\<lambda>r. generateRecordKey (parsed r) (raw r) = ?K)
            (fst (handleScan useLZ LZString now' ts' d ?h1 ?h1))) = 1"
    unfolding second using fresh none by (simp add: handleScan_fresh Let_def)
qed

lemmas scan_eval =
  handleScan_def processedData_def normalizedData_def isDuplicateRecord_def
  generateRecordKey_def truthy_def or_else_def tmpl_def
  parse_eval map_columns_def assign_col_def FRC_COLUMNS_def

theorem dedup_key_and_gate_witness:
  "generateRecordKey (Some (parseFrcData (js ''Alice E1 Q 1 R1 254''))) (js ''Alice E1 Q 1 R1 254'')
     = js ''E1-Q-1-254-Alice''
   \<and> generateRecordKey (Some (parseFrcData (js ''hello''))) (js ''hello'') = js ''hello''
   \<and> length (fst (handleScan False None 1 [] (js ''Alice E1 Q 1 R1 254'') [] [])) = 1
   \<and> length (fst (handleScan False None 2 [] (js ''Alice  E1 Q 1 R1 254'')
               (fst (handleScan False None 1 [] (js ''Alice E1 Q 1 R1 254'') [] []))
               (fst (handleScan False None 1 [] (js ''Alice E1 Q 1 R1 254'') [] [])))) = 1
   \<and> snd (snd (handleScan False None 2 [] (js ''Alice  E1 Q 1 R1 254'')
               (fst (handleScan False None 1 [] (js ''Alice E1 Q 1 R1 254'') [] []))
               (fst (handleScan False None 1 [] (js ''Alice E1 Q 1 R1 254'') [] [])))) = None"
proof -
  let ?A = "js ''Alice E1 Q 1 R1 254''"
  let ?B = "js ''Alice  E1 Q 1 R1 254''"
  let ?h1 = "fst (handleScan False None 1 [] ?A [] [])"
  have pA: "processedData False None ?A = ?A"
    by (simp add: processedData_def normalizedData_def trim_def is_ws_def)
  have pB: "processedData False None ?B = ?B"
    by (simp add: processedData_def normalizedData_def trim_def is_ws_def)
  have m: "parseFrcData ?A (js ''matchNumber'') = Some (js ''1'') \<and> js ''1'' \<noteq> []
      \<and> parseFrcData ?A (js ''teamNumber'') = Some (js ''254'') \<and> js ''254'' \<noteq> []
      \<and> parseFrcData ?A (js ''scouterName'') = Some (js ''Alice'') \<and> js ''Alice'' \<noteq> []"
    by (simp add: parse_eval map_columns_def assign_col_def FRC_COLUMNS_def)
  have e: "or_else (parseFrcData ?A (js ''eventCode'')) [] = js ''E1''
      \<and> or_else (parseFrcData ?A (js ''matchLevel'')) [] = js ''Q''"
    by (simp add: or_else_def parse_eval map_columns_def assign_col_def FRC_COLUMNS_def)
  have hello: "\<not> (truthy (parseFrcData (js ''hello'') (js ''matchNumber''))
      \<and> truthy (parseFrcData (js ''hello'') (js ''teamNumber''))
      \<and> truthy (parseFrcData (js ''hello'') (js ''scouterName'')))"
    by (simp add: truthy_def parse_eval map_columns_def assign_col_def FRC_COLUMNS_def)
  have kB: "generateRecordKey (Some (parseFrcData ?B)) ?B =
      generateRecordKey (Some (parseFrcData ?A)) ?A"
    by (simp add: scan_eval)
  note T = dedup_key_and_gate[where m = "parseFrcData ?A"
      and mn = "js ''1''" and tn = "js ''254''" and sn = "js ''Alice''"
      and rawText = "?A" and h = "[]" and useLZ = False
      and LZString = None and d = "?A" and now = 1 and ts = "[]"
      and d' = "?B" and now' = 2 and ts' = "[]"]
  note U = dedup_key_and_gate[where m = "parseFrcData (js ''hello'')" and rawText = "js ''hello''"]
  from T m e have c1: "generateRecordKey (Some (parseFrcData ?A)) ?A = js ''E1-Q-1-254-Alice''"
    by simp
  from U hello have c2: "generateRecordKey (Some (parseFrcData (js ''hello''))) (js ''hello'')
      = js ''hello''"
    by simp
  have c3: "length ?h1 = 1"
    by (simp add: handleScan_def isDuplicateRecord_def Let_def)
  from T kB have c4: "handleScan False None 2 [] ?B ?h1 ?h1 =
      (?h1, Warning (matchInfo (parseFrcData (processedData False None ?B))), None)"
    unfolding pA pB by blast
  from c1 c2 c3 c4 show ?thesis by simp
qed

text \<open>
  C1 as stated fails: the key is not the concatenation of the five components, it
  has hyphens between them.
\<close>

theorem dedup_key_concatenation_counterexample:
  "generateRecordKey (Some (parseFrcData (js ''Alice E1 Q 1 R1 254''))) (js ''Alice E1 Q 1 R1 254'')
     = js ''E1-Q-1-254-Alice''
   \<and> generateRecordKey (Some (parseFrcData (js ''Alice E1 Q 1 R1 254''))) (js ''Alice E1 Q 1 R1 254'')
     \<noteq> js ''E1'' @ js ''Q'' @ js ''1'' @ js ''254'' @ js ''Alice''"
  by (simp add: scan_eval)

section \<open>Upload: claims\<close>

lemma updateRecordStatus_nth:
  "i < length h \<Longrightarrow>
   updateRecordStatus k st msg h ! i =
     (if id_rec (h ! i) = k then (h ! i)\<lparr>status := st, errorMsg := msg\<rparr> else h ! i)"
  by (simp add: updateRecordStatus_def)

lemma length_updateRecordStatus: "length (updateRecordStatus k st msg h) = length h"
  by (simp add: updateRecordStatus_def)

lemma id_rec_updateRecordStatus:
  "map id_rec (updateRecordStatus k st msg h) = map id_rec h"
  by (simp add: updateRecordStatus_def)

lemma or_else_nonempty: "d \<noteq> [] \<Longrightarrow> or_else v d \<noteq> []"
  by (simp add: or_else_def split: option.splits)

text \<open>
  C6, amended: with an endpoint configured, \<open>uploadData\<close> sets the status of the
  records that have the id of the dispatched record to \<open>Sending\<close> and clears their
  \<open>errorMsg\<close>, and this is the history at the time the request is issued; when the
  request resolves they become \<open>Sent\<close> with no \<open>errorMsg\<close>; when it rejects they become
  \<open>Error\<close> with a non-empty \<open>errorMsg\<close>. A record with another id is not modified.
\<close>

theorem upload_status_transitions:
  "scriptUrl \<noteq> [] \<Longrightarrow> i < length h \<Longrightarrow>
   snd (uploadData_send scriptUrl r h) =
      Some \<lparr> url = scriptUrl, raw_param = simulatedRaw r, jsonCols = cols r \<rparr>
   \<and> length (fst (uploadData_send scriptUrl r h)) = length h
   \<and> fst (uploadData_send scriptUrl r h) ! i =
       (if id_rec (h ! i) = id_rec r then (h ! i)\<lparr>status := Sending, errorMsg := None\<rparr>
        else h ! i)
   \<and> uploadData_settle r Resolved (fst (uploadData_send scriptUrl r h)) ! i =
       (if id_rec (h ! i) = id_rec r then (h ! i)\<lparr>status := Sent, errorMsg := None\<rparr>
        else h ! i)
   \<and> uploadData_settle r (Rejected message) (fst (uploadData_send scriptUrl r h)) ! i =
       (if id_rec (h ! i) = id_rec r
        then (h ! i)\<lparr>status := Error,
                      errorMsg := Some (or_else message (js ''Network Error''))\<rparr>
        else h ! i)
   \<and> or_else message (js ''Network Error'') \<noteq> []
   \<and> uploadData scriptUrl fetch r h =
       (uploadData_settle r
          (fetch \<lparr> url = scriptUrl, raw_param = simulatedRaw r, jsonCols = cols r \<rparr>)
          (fst (uploadData_send scriptUrl r h)),
        Some \<lparr> url = scriptUrl, raw_param = simulatedRaw r, jsonCols = cols r \<rparr>)"
proof -
  assume u: "scriptUrl \<noteq> []" and i: "i < length h"
  have s: "uploadData_send scriptUrl r h =
      (updateRecordStatus (id_rec r) Sending None h,
       Some \<lparr> url = scriptUrl, raw_param = simulatedRaw r, jsonCols = cols r \<rparr>)"
    using u by (simp add: uploadData_send_def)
  have ne: "or_else message (js ''Network Error'') \<noteq> []"
    by (rule or_else_nonempty) simp
  have a: "updateRecordStatus (id_rec r) Sending None h ! i =
       (if id_rec (h ! i) = id_rec r then (h ! i)\<lparr>status := Sending, errorMsg := None\<rparr>
        else h ! i)"
    using i by (rule updateRecordStatus_nth)
  have i': "i < length (updateRecordStatus (id_rec r) Sending None h)"
    using i by (simp add: length_updateRecordStatus)
  have b: "updateRecordStatus (id_rec r) st msg (updateRecordStatus (id_rec r) Sending None h) ! i =
       (if id_rec (h ! i) = id_rec r then (h ! i)\<lparr>status := st, errorMsg := msg\<rparr>
        else h ! i)" for st msg
    using i by (simp add: updateRecordStatus_def)
  show ?thesis
    unfolding s fst_conv snd_conv
    apply (intro conjI)
          apply (rule refl)
         apply (rule length_updateRecordStatus)
        apply (rule a)
       apply (simp add: uploadData_settle_def b)
      apply (simp add: uploadData_settle_def b del: map_map)
     apply (rule ne)
    apply (simp add: uploadData_def s)
    done
qed

theorem upload_status_transitions_witness:
  "map status
     (fst (uploadData (js ''https://x'') (\<lambda>q. Rejected None)
        \<lparr> id_rec = 1, timestamp = [], raw = js ''a'', parsed = None, displayData = [],
           status = Pending, errorMsg = None \<rparr>
        [\<lparr> id_rec = 2, timestamp = [], raw = js ''b'', parsed = None, displayData = [],
            status = Pending, errorMsg = None \<rparr>,
         \<lparr> id_rec = 1, timestamp = [], raw = js ''a'', parsed = None, displayData = [],
            status = Pending, errorMsg = None \<rparr>])) = [Pending, Error]
   \<and> map errorMsg
     (fst (uploadData (js ''https://x'') (\<lambda>q. Rejected None)
        \<lparr> id_rec = 1, timestamp = [], raw = js ''a'', parsed = None, displayData = [],
           status = Pending, errorMsg = None \<rparr>
        [\<lparr> id_rec = 2, timestamp = [], raw = js ''b'', parsed = None, displayData = [],
            status = Pending, errorMsg = None \<rparr>,
         \<lparr> id_rec = 1, timestamp = [], raw = js ''a'', parsed = None, displayData = [],
            status = Pending, errorMsg = None \<rparr>])) = [None, Some (js ''Network Error'')]"
proof -
  let ?a = "\<lparr> id_rec = 1, timestamp = [], raw = js ''a'', parsed = None, displayData = [],
           status = Pending, errorMsg = None \<rparr>"
  let ?b = "\<lparr> id_rec = 2, timestamp = [], raw = js ''b'', parsed = None, displayData = [],
           status = Pending, errorMsg = None \<rparr>"
  let ?u = "js ''https://x''"
  let ?f = "\<lambda>q. Rejected None"
  have u: "?u \<noteq> []" by simp
  note T0 = upload_status_transitions[OF u, of 0 "[?b, ?a]" ?a None ?f]
  note T1 = upload_status_transitions[OF u, of 1 "[?b, ?a]" ?a None ?f]
  have l: "length (fst (uploadData ?u ?f ?a [?b, ?a])) = 2"
    using T0 by (simp add: uploadData_settle_def length_updateRecordStatus)
  have x0: "fst (uploadData ?u ?f ?a [?b, ?a]) ! 0 = ?b"
    using T0 by simp
  have x1: "fst (uploadData ?u ?f ?a [?b, ?a]) ! 1 =
      ?a\<lparr>status := Error, errorMsg := Some (js ''Network Error'')\<rparr>"
    using T1 by (simp add: or_else_def)
  have "fst (uploadData ?u ?f ?a [?b, ?a]) =
      [?b, ?a\<lparr>status := Error, errorMsg := Some (js ''Network Error'')\<rparr>]"
    using l x0 x1 by (auto simp add: list_eq_iff_nth_eq less_Suc_eq numeral_2_eq_2 simp del: fst_conv)
  then show ?thesis by simp
qed


text \<open>
  C6 as stated fails when two records share an id (two payloads scanned at the
  same clock reading): the upload of one modifies the other.
\<close>

theorem upload_shared_id_counterexample:
  "map raw (fst (handleScan False None 5 [] (js ''b'')
              (fst (handleScan False None 5 [] (js ''a'') [] []))
              (fst (handleScan False None 5 [] (js ''a'') [] []))))
     = [js ''b'', js ''a'']
   \<and> map status (fst (handleScan False None 5 [] (js ''b'')
              (fst (handleScan False None 5 [] (js ''a'') [] []))
              (fst (handleScan False None 5 [] (js ''a'') [] []))))
     = [Pending, Pending]
   \<and> map status
        (fst (uploadData (js ''https://x'') (\<lambda>q. Resolved)
           (fst (handleScan False None 5 [] (js ''b'')
              (fst (handleScan False None 5 [] (js ''a'') [] []))
              (fst (handleScan False None 5 [] (js ''a'') [] []))) ! 1)
           (fst (handleScan False None 5 [] (js ''b'')
              (fst (handleScan False None 5 [] (js ''a'') [] []))
              (fst (handleScan False None 5 [] (js ''a'') [] []))))))
     = [Sent, Sent]"
proof -
  let ?ra = "\<lparr> id_rec = 5, timestamp = [], raw = js ''a'', parsed = Some (parseFrcData (js ''a'')),
      displayData = preview (parseFrcData (js ''a'')) (js ''a''), status = Pending,
      errorMsg = None \<rparr>"
  let ?rb = "\<lparr> id_rec = 5, timestamp = [], raw = js ''b'', parsed = Some (parseFrcData (js ''b'')),
      displayData = preview (parseFrcData (js ''b'')) (js ''b''), status = Pending,
      errorMsg = None \<rparr>"
  have pa: "processedData False None (js ''a'') = js ''a''"
    and pb: "processedData False None (js ''b'') = js ''b''"
    by (simp_all add: processedData_def normalizedData_def trim_def is_ws_def)
  have ka: "generateRecordKey (Some (parseFrcData (js ''a''))) (js ''a'') = js ''a''"
    and kb: "generateRecordKey (Some (parseFrcData (js ''b''))) (js ''b'') = js ''b''"
    by (simp_all add: scan_eval)
  have h1: "fst (handleScan False None 5 [] (js ''a'') [] []) = [?ra]"
    using pa by (simp add: handleScan_def isDuplicateRecord_def Let_def)
  have h2: "fst (handleScan False None 5 [] (js ''b'') [?ra] [?ra]) = [?rb, ?ra]"
    using pb ka kb by (simp add: handleScan_def isDuplicateRecord_def Let_def)
  show ?thesis
    unfolding h1 h2
    by (simp add: uploadData_def uploadData_send_def uploadData_settle_def
        updateRecordStatus_def)
qed

section \<open>Retry: claims\<close>



section \<open>No endpoint: claims\<close>

text \<open>
  C10: with an empty endpoint URL, \<open>uploadData\<close> returns the history unchanged
  and issues no request; a record just created by \<open>handleScan\<close> stays \<open>Pending\<close> with
  no \<open>errorMsg\<close>.
\<close>

theorem upload_without_endpoint:
  "uploadData_send [] r h = (h, None)
   \<and> uploadData [] fetch r h = (h, None)
   \<and> (handleScan useLZ LZString now ts d scanHistory h = (h', n, Some r') \<longrightarrow>
        uploadData [] fetch r' h' = (h', None) \<and> h' = r' # h \<and> status r' = Pending
        \<and> errorMsg r' = None)"
  by (auto simp add: uploadData_def uploadData_send_def handleScan_def Let_def
      split: option.splits)

theorem upload_without_endpoint_witness:
  "map status (fst (uploadData [] (\<lambda>q. Resolved)
      (hd (fst (handleScan False None 5 [] (js ''a'') [] [])))
      (fst (handleScan False None 5 [] (js ''a'') [] [])))) = [Pending]
   \<and> snd (uploadData [] (\<lambda>q. Resolved)
      (hd (fst (handleScan False None 5 [] (js ''a'') [] [])))
      (fst (handleScan False None 5 [] (js ''a'') [] []))) = None"
proof -
  let ?ra = "\<lparr> id_rec = 5, timestamp = [], raw = js ''a'', parsed = Some (parseFrcData (js ''a'')),
      displayData = preview (parseFrcData (js ''a'')) (js ''a''), status = Pending,
      errorMsg = None \<rparr>"
  have pa: "processedData False None (js ''a'') = js ''a''"
    by (simp add: processedData_def normalizedData_def trim_def is_ws_def)
  have h1: "handleScan False None 5 [] (js ''a'') [] [] = ([?ra], Success, Some ?ra)"
    using pa by (simp add: handleScan_def isDuplicateRecord_def Let_def)
  from upload_without_endpoint[where r = ?ra and h = "[]" and fetch = "\<lambda>q. Resolved"
      and useLZ = False and LZString = None and now = 5 and ts = "[]" and d = "js ''a''"
      and scanHistory = "[]" and h' = "[?ra]" and n = Success and r' = ?ra] h1
  show ?thesis by simp
qed

section \<open>Record ids: claims\<close>

lemma handleScan_result:
  "handleScan useLZ LZString now ts d scanHistory h = (h', n, res) \<Longrightarrow>
   (res = None \<and> h' = h) \<or> (\<exists>r. res = Some r \<and> h' = r # h \<and> id_rec r = now)"
  by (auto simp add: handleScan_def Let_def split: option.splits)

lemma desc_distinct: "sorted_wrt (\<lambda>a b. a > b) (xs :: int list) \<Longrightarrow> distinct xs"
  by (induction xs) auto

lemma run_invariant:
  "sorted_wrt (<) (clock es) \<Longrightarrow>
   \<forall>t \<in> set (clock es). \<forall>i \<in> set issued. i < t \<Longrightarrow>
   sorted_wrt (\<lambda>a b. a > b) issued \<Longrightarrow>
   sorted_wrt (\<lambda>a b. a > b) (map id_rec h) \<Longrightarrow>
   set (map id_rec h) \<subseteq> set issued \<Longrightarrow>
   sorted_wrt (\<lambda>a b. a > b) (snd (run useLZ LZString es (h, issued)))
   \<and> sorted_wrt (\<lambda>a b. a > b) (map id_rec (fst (run useLZ LZString es (h, issued))))
   \<and> set (map id_rec (fst (run useLZ LZString es (h, issued))))
       \<subseteq> set (snd (run useLZ LZString es (h, issued)))"
proof (induction es arbitrary: h issued)
  case Nil
  then show ?case by simp
next
  case (Cons e es)
  show ?case
  proof (cases e)
    case (Clear confirmed)
    have "sorted_wrt (\<lambda>a b. a > b) (map id_rec (clearHistory confirmed h))"
      and "set (map id_rec (clearHistory confirmed h)) \<subseteq> set issued"
      using Cons.prems by (auto simp add: clearHistory_def)
    with Cons.IH[of issued "clearHistory confirmed h"] Cons.prems Clear
    show ?thesis by simp
  next
    case (Scan d now ts scanHistory)
    obtain h' n res where hs: "handleScan useLZ LZString now ts d scanHistory h = (h', n, res)"
      by (cases "handleScan useLZ LZString now ts d scanHistory h") auto
    from Cons.prems(1) Scan have cl: "sorted_wrt (<) (clock es)"
      and later: "\<forall>t \<in> set (clock es). now < t"
      by auto
    from Cons.prems(2) Scan have old: "\<forall>i \<in> set issued. i < now"
      and rest: "\<forall>t \<in> set (clock es). \<forall>i \<in> set issued. i < t"
      by auto
    from handleScan_result[OF hs] show ?thesis
    proof
      assume "res = None \<and> h' = h"
      with hs Scan Cons.IH[OF cl rest Cons.prems(3) Cons.prems(4) Cons.prems(5)]
      show ?thesis by simp
    next
      assume "\<exists>r. res = Some r \<and> h' = r # h \<and> id_rec r = now"
      then obtain r where r: "res = Some r" "h' = r # h" "id_rec r = now" by blast
      have a: "\<forall>t \<in> set (clock es). \<forall>i \<in> set (now # issued). i < t"
        using later rest by auto
      have b: "sorted_wrt (\<lambda>a b. a > b) (now # issued)"
        using old Cons.prems(3) by auto
      have c: "sorted_wrt (\<lambda>a b. a > b) (map id_rec (r # h))"
        using old Cons.prems(4) Cons.prems(5) r(3) by auto
      have d: "set (map id_rec (r # h)) \<subseteq> set (now # issued)"
        using Cons.prems(5) r(3) by auto
      from Cons.IH[OF cl a b c d] hs Scan r show ?thesis by simp
    qed
  qed
qed

text \<open>
  C8, amended: the id of a new record is the clock reading of its scan. In a run of
  scans and clears whose clock readings are strictly increasing and greater than every id
  assigned before, the ids assigned are strictly increasing and never repeated, and the
  ids of the records in the store are among them, strictly increasing from oldest to
  newest and pairwise different.
\<close>

theorem ids_increasing_unique:
  "sorted_wrt (<) (clock es) \<Longrightarrow>
   \<forall>t \<in> set (clock es). \<forall>i \<in> set issued. i < t \<Longrightarrow>
   sorted_wrt (\<lambda>a b. a > b) issued \<Longrightarrow>
   sorted_wrt (\<lambda>a b. a > b) (map id_rec h) \<Longrightarrow>
   set (map id_rec h) \<subseteq> set issued \<Longrightarrow>
   (handleScan useLZ LZString now ts d scanHistory h0 = (h1, n, Some r)
      \<longrightarrow> id_rec r = now \<and> h1 = r # h0)
   \<and> sorted_wrt (\<lambda>a b. a > b) (snd (run useLZ LZString es (h, issued)))
   \<and> distinct (snd (run useLZ LZString es (h, issued)))
   \<and> sorted_wrt (\<lambda>a b. a > b) (map id_rec (fst (run useLZ LZString es (h, issued))))
   \<and> distinct (map id_rec (fst (run useLZ LZString es (h, issued))))
   \<and> set (map id_rec (fst (run useLZ LZString es (h, issued))))
       \<subseteq> set (snd (run useLZ LZString es (h, issued)))"
proof -
  assume p: "sorted_wrt (<) (clock es)"
    "\<forall>t \<in> set (clock es). \<forall>i \<in> set issued. i < t"
    "sorted_wrt (\<lambda>a b. a > b) issued"
    "sorted_wrt (\<lambda>a b. a > b) (map id_rec h)"
    "set (map id_rec h) \<subseteq> set issued"
  note inv = run_invariant[OF p, of useLZ LZString]
  have first: "handleScan useLZ LZString now ts d scanHistory h0 = (h1, n, Some r) \<longrightarrow>
      id_rec r = now \<and> h1 = r # h0"
    using handleScan_result[of useLZ LZString now ts d scanHistory h0 h1 n "Some r"] by auto
  from inv first show ?thesis
    by (simp add: desc_distinct)
qed

theorem ids_increasing_unique_witness:
  "map id_rec (fst (run False None
      [Scan (js ''a'') 5 [] [], Scan (js ''a'') 6 [] [], Clear False, Scan (js ''b'') 9 [] []]
      ([\<lparr> id_rec = 3, timestamp = [], raw = js ''z'', parsed = None, displayData = [],
          status = Sent, errorMsg = None \<rparr>], [3, 1]))) = [9, 6, 5, 3]
   \<and> snd (run False None
      [Scan (js ''a'') 5 [] [], Scan (js ''a'') 6 [] [], Clear False, Scan (js ''b'') 9 [] []]
      ([\<lparr> id_rec = 3, timestamp = [], raw = js ''z'', parsed = None, displayData = [],
          status = Sent, errorMsg = None \<rparr>], [3, 1])) = [9, 6, 5, 3, 1]
   \<and> distinct (snd (run False None
      [Scan (js ''a'') 5 [] [], Scan (js ''a'') 6 [] [], Clear False, Scan (js ''b'') 9 [] []]
      ([\<lparr> id_rec = 3, timestamp = [], raw = js ''z'', parsed = None, displayData = [],
          status = Sent, errorMsg = None \<rparr>], [3, 1])))"
proof -
  let ?es = "[Scan (js ''a'') 5 [] [], Scan (js ''a'') 6 [] [], Clear False,
      Scan (js ''b'') 9 [] []]"
  let ?z = "\<lparr> id_rec = 3, timestamp = [], raw = js ''z'', parsed = None, displayData = [],
          status = Sent, errorMsg = None \<rparr>"
  have pa: "processedData False None (js ''a'') = js ''a''"
    and pb: "processedData False None (js ''b'') = js ''b''"
    by (simp_all add: processedData_def normalizedData_def trim_def is_ws_def)
  have r: "map id_rec (fst (run False None ?es ([?z], [3, 1]))) = [9, 6, 5, 3]
      \<and> snd (run False None ?es ([?z], [3, 1])) = [9, 6, 5, 3, 1]"
    using pa pb
    by (simp add: handleScan_def isDuplicateRecord_def Let_def clearHistory_def)
  have c1: "sorted_wrt (<) (clock ?es)" by simp
  have c2: "\<forall>t \<in> set (clock ?es). \<forall>i \<in> set [3, 1]. i < t" by simp
  have c3: "sorted_wrt (\<lambda>a b. a > b) [3, 1 :: int]" by simp
  have c4: "sorted_wrt (\<lambda>a b. a > b) (map id_rec [?z])" by simp
  have c5: "set (map id_rec [?z]) \<subseteq> set [3, 1]" by simp
  from ids_increasing_unique[OF c1 c2 c3 c4 c5, of False None] r
  show ?thesis by simp
qed

text \<open>
  C8 as stated fails: two different payloads scanned at the same clock reading give
  two records with the same id.
\<close>

theorem ids_same_clock_counterexample:
  "map id_rec (fst (run False None [Scan (js ''a'') 5 [] [], Scan (js ''b'') 5 [] []] ([], [])))
     = [5, 5]
   \<and> map raw (fst (run False None [Scan (js ''a'') 5 [] [], Scan (js ''b'') 5 [] []] ([], [])))
     = [js ''b'', js ''a'']
   \<and> \<not> distinct (map id_rec
         (fst (run False None [Scan (js ''a'') 5 [] [], Scan (js ''b'') 5 [] []] ([], []))))"
proof -
  have pa: "processedData False None (js ''a'') = js ''a''"
    and pb: "processedData False None (js ''b'') = js ''b''"
    by (simp_all add: processedData_def normalizedData_def trim_def is_ws_def)
  show ?thesis
    using pa pb
    by (simp add: handleScan_def isDuplicateRecord_def Let_def)
qed

section \<open>Round trip through the rebuilt text\<close>

lemma split_ws_not_Nil: "split_ws s \<noteq> []"
  by (induction s rule: split_ws.induct) (auto split: list.splits)

lemma split_ws_clean_tokens: "\<forall>t \<in> set (split_ws s). \<forall>c \<in> set t. \<not> is_ws c"
proof (induction s rule: split_ws.induct)
  case 1
  show ?case by simp
next
  case (2 c cs)
  show ?case
  proof (cases "is_ws c")
    case True
    with 2(1) show ?thesis by simp
  next
    case False
    obtain t ts where ts: "split_ws cs = t # ts"
      using split_ws_not_Nil[of cs] by (cases "split_ws cs") auto
    with 2(2)[OF False] False show ?thesis by simp
  qed
qed

lemma split_ws_one: "\<forall>c \<in> set x. \<not> is_ws c \<Longrightarrow> split_ws x = [x]"
  by (induction x) auto

lemma split_ws_append_ws:
  "\<forall>c \<in> set x. \<not> is_ws c \<Longrightarrow> is_ws w \<Longrightarrow>
   split_ws (x @ w # rest) = x # split_ws (dropWhile is_ws rest)"
  by (induction x) auto

lemma join_sp_Cons: "join_sp (a # rest) = (if rest = [] then a else a @ SPACE # join_sp rest)"
  by (cases rest) auto

lemma join_sp_append:
  "xs \<noteq> [] \<Longrightarrow> ys \<noteq> [] \<Longrightarrow> join_sp (xs @ ys) = join_sp xs @ SPACE # join_sp ys"
  by (induction xs rule: join_sp.induct) (auto simp add: join_sp_Cons)

lemma hd_join_sp: "u \<noteq> [] \<Longrightarrow> hd u \<noteq> [] \<Longrightarrow> hd (join_sp u) = hd (hd u)"
  by (cases u) (auto simp add: join_sp_Cons)

lemma join_sp_Nil_iff: "u \<noteq> [] \<Longrightarrow> hd u \<noteq> [] \<Longrightarrow> join_sp u \<noteq> []"
  by (cases u) (auto simp add: join_sp_Cons)

lemma is_ws_SPACE: "is_ws SPACE"
  by (simp add: is_ws_def SPACE_def)

lemma is_ws_TAB: "is_ws TAB"
  by (simp add: is_ws_def TAB_def)

lemma split_ws_join_sp:
  "u \<noteq> [] \<Longrightarrow> \<forall>t \<in> set u. t \<noteq> [] \<and> (\<forall>c \<in> set t. \<not> is_ws c) \<Longrightarrow>
   split_ws (join_sp u) = u"
proof (induction u rule: join_sp.induct)
  case 1
  then show ?case by simp
next
  case (2 x)
  then show ?case by (simp add: split_ws_one)
next
  case (3 x y ys)
  have y: "y \<noteq> []" "\<not> is_ws (hd y)"
    using 3(3) by auto
  then have "\<not> is_ws (hd (join_sp (y # ys)))"
    by (simp add: hd_join_sp)
  moreover have "join_sp (y # ys) \<noteq> []"
    using y by (simp add: join_sp_Nil_iff)
  ultimately have d: "dropWhile is_ws (join_sp (y # ys)) = join_sp (y # ys)"
    by (cases "join_sp (y # ys)") auto
  have "split_ws (join_sp (y # ys)) = y # ys"
    using 3 by simp
  with d 3(3) show ?case
    by (simp add: split_ws_append_ws is_ws_SPACE)
qed

lemma set_join_sp: "set (join_sp u) \<subseteq> insert SPACE (\<Union> (set ` set u))"
  by (induction u rule: join_sp.induct) auto

lemma join_sp_not_Nil_last: "u \<noteq> [] \<Longrightarrow> last u \<noteq> [] \<Longrightarrow> join_sp u \<noteq> []"
  by (induction u rule: join_sp.induct) auto

lemma last_join_sp: "u \<noteq> [] \<Longrightarrow> last u \<noteq> [] \<Longrightarrow> last (join_sp u) = last (last u)"
proof (induction u rule: join_sp.induct)
  case 1
  then show ?case by simp
next
  case (2 x)
  then show ?case by simp
next
  case (3 x y ys)
  then have "join_sp (y # ys) \<noteq> []"
    using join_sp_not_Nil_last[of "y # ys"] by simp
  with 3 show ?case by simp
qed

lemma fixSplitData_Nil_iff: "fixSplitData u = [] \<longleftrightarrow> u = []"
  by (cases u rule: join_sp.cases) (auto simp add: fixSplitData_eqs)

lemma join_sp_fixSplitData: "join_sp (fixSplitData u) = join_sp u"
proof (induction u rule: induct_list012)
  case 1
  show ?case by (simp add: fixSplitData_eqs)
next
  case (2 x)
  show ?case by (simp add: fixSplitData_eqs)
next
  case (3 x y zs)
  then show ?case
    by (simp add: fixSplitData_Cons2 join_sp_Cons fixSplitData_Nil_iff)
qed

lemma join_sp_replicate_Nil: "join_sp ([] # replicate k []) = replicate k SPACE"
  by (induction k) auto

lemma join_sp_pad:
  "t \<noteq> [] \<Longrightarrow> join_sp (t @ replicate k []) = join_sp t @ replicate k SPACE"
proof (cases k)
  case 0
  then show ?thesis by simp
next
  case (Suc k')
  assume "t \<noteq> []"
  then show ?thesis
    unfolding Suc
    by (subst join_sp_append) (simp_all add: join_sp_replicate_Nil replicate_append_same)
qed

lemma join_sp_fold_last:
  "n < length t \<Longrightarrow> join_sp (take n t @ [join_sp (drop n t)]) = join_sp t"
proof (cases n)
  case 0
  then show ?thesis by simp
next
  case (Suc m)
  assume n: "n < length t"
  then have a: "take n t \<noteq> []" and b: "drop n t \<noteq> []"
    using Suc by auto
  have "join_sp (take n t @ [join_sp (drop n t)]) = join_sp (take n t) @ SPACE # join_sp (drop n t)"
    using a by (subst join_sp_append) simp_all
  also have "\<dots> = join_sp (take n t @ drop n t)"
    using a b by (rule join_sp_append[symmetric])
  finally show ?thesis by (simp only: append_take_drop_id)
qed

lemma last_dropWhile_keep: "dropWhile P xs \<noteq> [] \<Longrightarrow> last (dropWhile P xs) = last xs"
  by (induction xs) (auto split: if_splits)

lemma trim_ends:
  "trim s = [] \<or> (\<not> is_ws (hd (trim s)) \<and> \<not> is_ws (last (trim s)))"
proof (cases "trim s = []")
  case True
  then show ?thesis by simp
next
  case False
  let ?a = "dropWhile is_ws s"
  let ?b = "dropWhile is_ws (rev ?a)"
  from False have b: "?b \<noteq> []" by (simp add: trim_def)
  have a: "?a \<noteq> []"
  proof
    assume "?a = []"
    then have "?b = []" by (simp only: rev.simps dropWhile.simps)
    with b show False by contradiction
  qed
  have "\<not> is_ws (hd ?b)" using b by (rule hd_dropWhile)
  then have l: "\<not> is_ws (last (trim s))"
    using b by (simp add: trim_def last_rev)
  have "last ?b = last (rev ?a)" using b by (rule last_dropWhile_keep)
  also have "\<dots> = hd ?a" using a by (simp add: last_rev)
  finally have "hd (trim s) = hd ?a"
    using b by (simp add: trim_def hd_rev)
  moreover have "\<not> is_ws (hd ?a)" using a by (rule hd_dropWhile)
  ultimately show ?thesis using l by simp
qed

lemma trim_pad:
  "x = [] \<or> (\<not> is_ws (hd x) \<and> \<not> is_ws (last x)) \<Longrightarrow> trim (x @ replicate k SPACE) = x"
proof (cases "x = []")
  case True
  have "dropWhile is_ws (replicate k SPACE) = []"
    by (simp add: is_ws_SPACE)
  with True show ?thesis by (simp add: trim_def)
next
  case False
  assume "x = [] \<or> (\<not> is_ws (hd x) \<and> \<not> is_ws (last x))"
  with False have h: "\<not> is_ws (hd x)" and l: "\<not> is_ws (last x)" by auto
  from False h have 1: "dropWhile is_ws (x @ replicate k SPACE) = x @ replicate k SPACE"
    by (cases x) auto
  have 2: "dropWhile is_ws (replicate k SPACE @ rev x) = rev x"
  proof -
    have "dropWhile is_ws (replicate k SPACE @ rev x) = dropWhile is_ws (rev x)"
      by (rule dropWhile_append2) (simp add: is_ws_SPACE)
    also have "\<dots> = rev x"
      using False l by (cases "rev x") (auto simp add: last_rev[symmetric] hd_rev)
    finally show ?thesis .
  qed
  show ?thesis by (simp add: trim_def 1 2)
qed

lemma split_ws_empty_tokens:
  "(s \<noteq> [] \<longrightarrow> \<not> is_ws (last s)) \<Longrightarrow>
   [] \<notin> set (tl (split_ws s)) \<and> (s \<noteq> [] \<and> \<not> is_ws (hd s) \<longrightarrow> hd (split_ws s) \<noteq> [])"
proof (induction s rule: split_ws.induct)
  case 1
  show ?case by simp
next
  case (2 c cs)
  show ?case
  proof (cases "is_ws c")
    case True
    let ?s' = "dropWhile is_ws cs"
    from 2(3) True have cs: "cs \<noteq> []" "\<not> is_ws (last cs)" by (auto split: if_splits)
    then have ne: "?s' \<noteq> []"
      by (metis dropWhile_eq_Nil_conv last_in_set)
    then have "last ?s' = last cs" by (rule last_dropWhile_keep)
    with cs have pre: "?s' \<noteq> [] \<longrightarrow> \<not> is_ws (last ?s')" by simp
    have hd: "\<not> is_ws (hd ?s')" using ne by (rule hd_dropWhile)
    from 2(1)[OF True pre] ne hd
    have "[] \<notin> set (tl (split_ws ?s'))" and "hd (split_ws ?s') \<noteq> []" by auto
    then have "[] \<notin> set (split_ws ?s')"
      using split_ws_not_Nil[of ?s'] by (cases "split_ws ?s'") auto
    with True show ?thesis by simp
  next
    case False
    obtain t ts where ts: "split_ws cs = t # ts"
      using split_ws_not_Nil[of cs] by (cases "split_ws cs") auto
    from 2(3) have "cs \<noteq> [] \<longrightarrow> \<not> is_ws (last cs)" by (auto split: if_splits)
    from 2(2)[OF False this] ts False show ?thesis by simp
  qed
qed

lemma split_ws_trim_tokens:
  "trim s \<noteq> [] \<Longrightarrow> t \<in> set (split_ws (trim s)) \<Longrightarrow> t \<noteq> [] \<and> (\<forall>c \<in> set t. \<not> is_ws c)"
proof -
  assume ne: "trim s \<noteq> []" and t: "t \<in> set (split_ws (trim s))"
  from trim_ends[of s] ne have e: "\<not> is_ws (hd (trim s))" "\<not> is_ws (last (trim s))" by auto
  from split_ws_empty_tokens[of "trim s"] e ne
  have "[] \<notin> set (tl (split_ws (trim s)))" and "hd (split_ws (trim s)) \<noteq> []" by auto
  then have "[] \<notin> set (split_ws (trim s))"
    using split_ws_not_Nil[of "trim s"] by (cases "split_ws (trim s)") auto
  with t split_ws_clean_tokens[of "trim s"] show ?thesis by auto
qed

text \<open>The text rebuilt from the tokens of a trimmed text parses to the same tokens.\<close>

lemma reparse_tokens:
  assumes u: "u = split_ws (trim s)"
  shows "trim (join_sp u @ replicate k SPACE) = join_sp u"
    and "TAB \<notin> set (join_sp u)"
    and "split_ws (join_sp u) = u"
proof -
  have all: "trim (join_sp u @ replicate k SPACE) = join_sp u \<and> TAB \<notin> set (join_sp u)
      \<and> split_ws (join_sp u) = u"
  proof (cases "trim s = []")
    case True
    with u have "u = [[]]" by simp
    then show ?thesis using trim_pad[of "[]" k] by simp
  next
    case False
    have ne: "u \<noteq> []" using u split_ws_not_Nil by simp
    have tok: "\<forall>t \<in> set u. t \<noteq> [] \<and> (\<forall>c \<in> set t. \<not> is_ws c)"
      using split_ws_trim_tokens[OF False] u by blast
    have hdne: "hd u \<noteq> []" and lastne: "last u \<noteq> []"
      using ne tok by auto
    have "hd (join_sp u) = hd (hd u)" using ne hdne by (rule hd_join_sp)
    moreover have "hd (hd u) \<in> set (hd u)" using hdne by simp
    moreover have "hd u \<in> set u" using ne by simp
    ultimately have h: "\<not> is_ws (hd (join_sp u))" using tok by metis
    have "last (join_sp u) = last (last u)" using ne lastne by (rule last_join_sp)
    moreover have "last (last u) \<in> set (last u)" using lastne by simp
    moreover have "last u \<in> set u" using ne by simp
    ultimately have l: "\<not> is_ws (last (join_sp u))" using tok by metis
    have 1: "trim (join_sp u @ replicate k SPACE) = join_sp u"
      using h l by (intro trim_pad) simp
    have 2: "TAB \<notin> set (join_sp u)"
    proof
      assume "TAB \<in> set (join_sp u)"
      with set_join_sp[of u] have "TAB = SPACE \<or> (\<exists>t \<in> set u. TAB \<in> set t)" by auto
      with tok is_ws_TAB show False by (auto simp add: TAB_def SPACE_def)
    qed
    have 3: "split_ws (join_sp u) = u" using ne tok by (rule split_ws_join_sp)
    from 1 2 3 show ?thesis by simp
  qed
  from all show "trim (join_sp u @ replicate k SPACE) = join_sp u"
    and "TAB \<notin> set (join_sp u)" and "split_ws (join_sp u) = u" by simp_all
qed

lemma sent_columns:
  assumes d: "distinct cs" and ne: "cs \<noteq> []"
  shows "map (\<lambda>key. case map_columns cs False t key of None \<Rightarrow> [] | Some val \<Rightarrow> val) cs =
     (if length cs \<le> length t
      then take (length cs - 1) t @ [join_sp (drop (length cs - 1) t)]
      else t @ replicate (length cs - length t) [])"
    (is "?l = ?r")
proof (rule nth_equalityI)
  show "length ?l = length ?r" using ne by (cases cs) auto
next
  fix i
  assume "i < length ?l"
  then have i: "i < length cs" by simp
  have v: "?l ! i =
      (if i < length t then (if i = length cs - 1 then join_sp (drop i t) else t ! i) else [])"
    using i by (simp add: map_columns_nth[OF d i])
  show "?l ! i = ?r ! i"
  proof (cases "length cs \<le> length t")
    case True
    with i have "i < length t" by simp
    with True i show ?thesis
      by (auto simp add: v nth_append)
  next
    case False
    with i show ?thesis
      by (auto simp add: v nth_append)
  qed
qed

lemma simulatedRaw_of_tokens:
  assumes p: "parsed r = Some (map_columns FRC_COLUMNS False t)" and t: "t \<noteq> []"
  shows "simulatedRaw r = join_sp t @ replicate (18 - length t) SPACE"
proof -
  have ne: "FRC_COLUMNS \<noteq> []" using length_FRC_COLUMNS by auto
  have c: "cols r = (if 18 \<le> length t then take 17 t @ [join_sp (drop 17 t)]
      else t @ replicate (18 - length t) [])"
    using sent_columns[OF distinct_FRC_COLUMNS ne, of t] p
    by (simp add: cols_def length_FRC_COLUMNS)
  show ?thesis
  proof (cases "18 \<le> length t")
    case True
    then have "17 < length t" by simp
    from join_sp_fold_last[OF this] True c show ?thesis
      by (simp add: simulatedRaw_def)
  next
    case False
    with c join_sp_pad[OF t, of "18 - length t"] show ?thesis
      by (simp add: simulatedRaw_def)
  qed
qed

lemma tokens_not_Nil: "tokens s \<noteq> []"
proof (cases "tabbed s")
  case True
  have "split_tab x \<noteq> []" for x
    by (induction x) (auto split: list.splits)
  with True show ?thesis by (simp add: tokens_def)
next
  case False
  then show ?thesis by (simp add: tokens_def fixSplitData_Nil_iff split_ws_not_Nil)
qed

text \<open>
  C5, amended: for a record whose parsed map is the result of parsing a text
  that has no tab after trimming, parsing the text rebuilt for the upload (the schema
  values in order, the empty text for a missing one, joined with single spaces) gives
  the same map. When that text has at least as many tokens as the schema has columns,
  the comment column is the tokens from the last position on, joined with single spaces,
  before and after.
\<close>

theorem reparse_rebuilt_text:
  "TAB \<notin> set (trim rawText) \<Longrightarrow> parsed r = Some (parseFrcData rawText) \<Longrightarrow>
   parseFrcData (simulatedRaw r) = parseFrcData rawText
   \<and> (18 \<le> length (tokens rawText) \<longrightarrow>
        parseFrcData rawText (js ''comments'') = Some (join_sp (drop 17 (tokens rawText)))
        \<and> parseFrcData (simulatedRaw r) (js ''comments'')
            = Some (join_sp (drop 17 (tokens rawText))))"
proof -
  assume nt: "TAB \<notin> set (trim rawText)" and p: "parsed r = Some (parseFrcData rawText)"
  let ?u = "split_ws (trim rawText)"
  let ?k = "18 - length (tokens rawText)"
  from nt have tb: "\<not> tabbed rawText" by (simp add: tabbed_def)
  then have tk: "tokens rawText = fixSplitData ?u" by (simp add: tokens_def)
  from p tb have p': "parsed r = Some (map_columns FRC_COLUMNS False (tokens rawText))"
    by (simp add: parseFrcData_def)
  have sr: "simulatedRaw r = join_sp ?u @ replicate ?k SPACE"
    using simulatedRaw_of_tokens[OF p' tokens_not_Nil]
    by (simp add: tk join_sp_fixSplitData)
  have tr: "trim (simulatedRaw r) = join_sp ?u"
    unfolding sr by (rule reparse_tokens(1)[OF refl])
  have tb': "\<not> tabbed (simulatedRaw r)"
    using reparse_tokens(2)[OF refl, of rawText] by (simp add: tabbed_def tr)
  have "tokens (simulatedRaw r) = fixSplitData (split_ws (trim (simulatedRaw r)))"
    using tb' by (simp add: tokens_def)
  also have "\<dots> = fixSplitData ?u"
    using reparse_tokens(3)[OF refl, of rawText] by (simp add: tr)
  finally have tk': "tokens (simulatedRaw r) = tokens rawText"
    by (simp only: tk)
  have same: "parseFrcData (simulatedRaw r) = parseFrcData rawText"
    using tb tb' tk' by (simp add: parseFrcData_def)
  have c: "FRC_COLUMNS ! 17 = js ''comments''" by (simp add: FRC_COLUMNS_def)
  have "18 \<le> length (tokens rawText) \<Longrightarrow>
      parseFrcData rawText (js ''comments'') = Some (join_sp (drop 17 (tokens rawText)))"
    using map_columns_nth[OF distinct_FRC_COLUMNS, of 17 False "tokens rawText"] tb c
    by (simp add: parseFrcData_def length_FRC_COLUMNS)
  with same show ?thesis by simp
qed


theorem reparse_rebuilt_text_witness:
  "parseFrcData (simulatedRaw
      \<lparr> id_rec = 1, timestamp = [],
         raw = js ''A E Q 1 R1 254 0 1 2 3 4 5 6 7 8 Level 2 10 fast  and sturdy'',
         parsed = Some (parseFrcData
           (js ''A E Q 1 R1 254 0 1 2 3 4 5 6 7 8 Level 2 10 fast  and sturdy'')),
         displayData = [], status = Pending, errorMsg = None \<rparr>)
     = parseFrcData (js ''A E Q 1 R1 254 0 1 2 3 4 5 6 7 8 Level 2 10 fast  and sturdy'')
   \<and> parseFrcData (simulatedRaw
      \<lparr> id_rec = 1, timestamp = [],
         raw = js ''A E Q 1 R1 254 0 1 2 3 4 5 6 7 8 Level 2 10 fast  and sturdy'',
         parsed = Some (parseFrcData
           (js ''A E Q 1 R1 254 0 1 2 3 4 5 6 7 8 Level 2 10 fast  and sturdy'')),
         displayData = [], status = Pending, errorMsg = None \<rparr>) (js ''comments'')
     = Some (js ''fast and sturdy'')"
proof -
  let ?raw = "js ''A E Q 1 R1 254 0 1 2 3 4 5 6 7 8 Level 2 10 fast  and sturdy''"
  let ?r = "\<lparr> id_rec = 1, timestamp = [], raw = ?raw, parsed = Some (parseFrcData ?raw),
         displayData = [], status = Pending, errorMsg = None \<rparr>"
  have t: "tokens ?raw = [js ''A'', js ''E'', js ''Q'', js ''1'', js ''R1'', js ''254'',
      js ''0'', js ''1'', js ''2'', js ''3'', js ''4'', js ''5'', js ''6'', js ''7'', js ''8'',
      js ''Level 2'', js ''10'', js ''fast'', js ''and'', js ''sturdy'']"
    by (simp add: parse_eval)
  have h1: "TAB \<notin> set (trim ?raw)"
    by (simp add: trim_def is_ws_def TAB_def)
  have h2: "parsed ?r = Some (parseFrcData ?raw)" by simp
  have h3: "18 \<le> length (tokens ?raw)" using t by simp
  have j: "join_sp (drop 17 (tokens ?raw)) = js ''fast and sturdy''"
    using t by (simp add: SPACE_def)
  from reparse_rebuilt_text[OF h1 h2] h3 j show ?thesis by simp
qed

text \<open>
  C5 as stated fails for a record parsed from tab-separated text with a space
  inside one field and an empty field: the rebuilt text has as many tokens as the
  original, and parses to another map.
\<close>

theorem reparse_tab_separated_counterexample:
  "parseFrcData (js ''x y'' @ TAB # TAB # js ''z'') (js ''scouterName'') = Some (js ''x y'')
   \<and> length (tokens (js ''x y'' @ TAB # TAB # js ''z'')) = 3
   \<and> simulatedRaw
      \<lparr> id_rec = 1, timestamp = [], raw = js ''x y'' @ TAB # TAB # js ''z'',
         parsed = Some (parseFrcData (js ''x y'' @ TAB # TAB # js ''z'')),
         displayData = [], status = Pending, errorMsg = None \<rparr>
     = js ''x y  z               ''
   \<and> length (tokens (js ''x y  z               '')) = 3
   \<and> parseFrcData (js ''x y  z               '') (js ''scouterName'') = Some (js ''x'')
   \<and> parseFrcData (js ''x y  z               '')
       \<noteq> parseFrcData (js ''x y'' @ TAB # TAB # js ''z'')"
proof -
  let ?raw = "js ''x y'' @ TAB # TAB # js ''z''"
  let ?r = "\<lparr> id_rec = 1, timestamp = [], raw = ?raw, parsed = Some (parseFrcData ?raw),
         displayData = [], status = Pending, errorMsg = None \<rparr>"
  let ?re = "js ''x y  z               ''"
  have t: "tokens ?raw = [js ''x y'', [], js ''z'']"
    by (simp add: parse_eval)
  have tb: "tabbed ?raw"
    by (simp add: tabbed_def trim_def is_ws_def TAB_def)
  have c: "cols ?r = [js ''x y'', [], js ''z'', [], [], [], [], [], [], [], [], [], [], [], [],
      [], [], []]"
    using t tb
    by (simp add: cols_def parseFrcData_def map_columns_def assign_col_def FRC_COLUMNS_def)
  have s: "simulatedRaw ?r = ?re"
    using c by (simp add: simulatedRaw_def SPACE_def)
  have t': "tokens ?re = [js ''x'', js ''y'', js ''z'']"
    by (simp add: parse_eval)
  have tb': "\<not> tabbed ?re"
    by (simp add: tabbed_def trim_def is_ws_def TAB_def)
  have a: "parseFrcData ?raw (js ''scouterName'') = Some (js ''x y'')"
    using t tb
    by (simp add: parseFrcData_def map_columns_def assign_col_def FRC_COLUMNS_def)
  have b: "parseFrcData ?re (js ''scouterName'') = Some (js ''x'')"
    using t' tb'
    by (simp add: parseFrcData_def map_columns_def assign_col_def FRC_COLUMNS_def)
  have "parseFrcData ?re \<noteq> parseFrcData ?raw"
  proof
    assume "parseFrcData ?re = parseFrcData ?raw"
    then have "parseFrcData ?re (js ''scouterName'') = parseFrcData ?raw (js ''scouterName'')"
      by (rule arg_cong)
    with a b show False by simp
  qed
  with a b s t t' show ?thesis by simp
qed

section \<open>Field parser: keys and values\<close>

lemma fixSplitData_nonempty_tokens:
  "\<forall>t \<in> set u. t \<noteq> [] \<Longrightarrow> \<forall>t \<in> set (fixSplitData u). t \<noteq> []"
proof (induction u rule: induct_list012)
  case 1
  show ?case by (simp add: fixSplitData_eqs)
next
  case (2 x)
  then show ?case by (simp add: fixSplitData_eqs)
next
  case (3 x y zs)
  then show ?case by (simp add: fixSplitData_Cons2)
qed

lemma parse_blank: "trim rawText = [] \<Longrightarrow> parseFrcData rawText = [js ''scouterName'' \<mapsto> []]"
proof -
  assume b: "trim rawText = []"
  then have tb: "\<not> tabbed rawText" by (simp add: tabbed_def)
  with b have t: "tokens rawText = [[]]" by (simp add: tokens_def fixSplitData_eqs)
  show ?thesis
    using tb t
    by (simp add: parseFrcData_def map_columns_def assign_col_def FRC_COLUMNS_def)
qed

lemma parse_value_at:
  "i < 18 \<Longrightarrow>
   parseFrcData rawText (FRC_COLUMNS ! i) =
     (if i < length (tokens rawText) then
        Some (if i = 17 then
                (if TAB \<in> set (trim rawText) then tokens rawText ! i
                 else join_sp (drop i (tokens rawText)))
              else tokens rawText ! i)
      else None)"
  using map_columns_nth[OF distinct_FRC_COLUMNS, of i "tabbed rawText" "tokens rawText"]
  by (simp add: parseFrcData_def length_FRC_COLUMNS tabbed_def)

lemma parse_values_nonempty:
  assumes nt: "TAB \<notin> set (trim rawText)" and nb: "trim rawText \<noteq> []"
    and v: "parseFrcData rawText k = Some v"
  shows "v \<noteq> []"
proof -
  let ?t = "tokens rawText"
  from nt have tk: "?t = fixSplitData (split_ws (trim rawText))"
    by (simp add: tokens_def tabbed_def)
  have "\<forall>t \<in> set (split_ws (trim rawText)). t \<noteq> []"
    using split_ws_trim_tokens[OF nb] by blast
  then have ne: "\<forall>t \<in> set ?t. t \<noteq> []"
    unfolding tk by (rule fixSplitData_nonempty_tokens)
  from v have "k \<in> dom (parseFrcData rawText)" by auto
  then have "k \<in> set (take (length ?t) FRC_COLUMNS)"
    by (simp add: parseFrcData_def dom_map_columns distinct_FRC_COLUMNS)
  then obtain i where i: "i < length ?t" "i < 18" "k = FRC_COLUMNS ! i"
    by (auto simp add: in_set_conv_nth length_FRC_COLUMNS)
  from parse_value_at[OF i(2), of rawText] i(1) i(3) v nt
  have val: "v = (if i = 17 then join_sp (drop i ?t) else ?t ! i)"
    by (auto split: if_splits)
  show ?thesis
  proof (cases "i = 17")
    case True
    from i(1) have d: "drop i ?t \<noteq> []" by simp
    then have "hd (drop i ?t) \<in> set ?t"
      by (metis hd_in_set in_set_dropD)
    with ne have "hd (drop i ?t) \<noteq> []" by blast
    with d have "join_sp (drop i ?t) \<noteq> []" by (rule join_sp_Nil_iff)
    with val True show ?thesis by simp
  next
    case False
    with val i(1) ne show ?thesis by simp
  qed
qed

text \<open>
  C9, amended: \<open>parseFrcData\<close> has a result for every text. The result is never
  the empty map: there is always a first token, and the keys of the result are the first
  columns of the schema, as many as there are tokens, so a column with no token is an
  absent key. A present key holds its token as it is (the last column: the token on the
  tab path, the joined remaining tokens on the whitespace path). For a blank text the
  result is \<open>scouterName\<close> with the empty text and nothing else; for a text that is
  not blank and has no tab after trimming, no stored value is empty.
\<close>

theorem parse_total_keys_and_values:
  "tokens rawText \<noteq> []
   \<and> parseFrcData rawText \<noteq> Map.empty
   \<and> dom (parseFrcData rawText) = set (take (length (tokens rawText)) FRC_COLUMNS)
   \<and> (i < 18 \<longrightarrow>
        parseFrcData rawText (FRC_COLUMNS ! i) =
          (if i < length (tokens rawText) then
             Some (if i = 17 then
                     (if TAB \<in> set (trim rawText) then tokens rawText ! i
                      else join_sp (drop i (tokens rawText)))
                   else tokens rawText ! i)
           else None))
   \<and> (trim rawText = [] \<longrightarrow> parseFrcData rawText = [js ''scouterName'' \<mapsto> []])
   \<and> (TAB \<notin> set (trim rawText) \<and> trim rawText \<noteq> [] \<and> parseFrcData rawText k = Some v
        \<longrightarrow> v \<noteq> [])"
proof -
  have d: "dom (parseFrcData rawText) = set (take (length (tokens rawText)) FRC_COLUMNS)"
    by (simp add: parseFrcData_def dom_map_columns distinct_FRC_COLUMNS)
  have "take (length (tokens rawText)) FRC_COLUMNS \<noteq> []"
    using tokens_not_Nil[of rawText] length_FRC_COLUMNS by auto
  with d have "dom (parseFrcData rawText) \<noteq> {}" by simp
  then have ne: "parseFrcData rawText \<noteq> Map.empty" by auto
  show ?thesis
  proof (intro conjI impI)
    show "tokens rawText \<noteq> []" by (rule tokens_not_Nil)
    show "parseFrcData rawText \<noteq> Map.empty" by (rule ne)
    show "dom (parseFrcData rawText) = set (take (length (tokens rawText)) FRC_COLUMNS)"
      by (rule d)
  next
    assume "i < 18"
    then show "parseFrcData rawText (FRC_COLUMNS ! i) =
          (if i < length (tokens rawText) then
             Some (if i = 17 then
                     (if TAB \<in> set (trim rawText) then tokens rawText ! i
                      else join_sp (drop i (tokens rawText)))
                   else tokens rawText ! i)
           else None)"
      by (rule parse_value_at)
  next
    assume "trim rawText = []"
    then show "parseFrcData rawText = [js ''scouterName'' \<mapsto> []]" by (rule parse_blank)
  next
    assume "TAB \<notin> set (trim rawText) \<and> trim rawText \<noteq> [] \<and> parseFrcData rawText k = Some v"
    then show "v \<noteq> []" using parse_values_nonempty[of rawText k v] by blast
  qed
qed

theorem parse_total_keys_and_values_witness:
  "dom (parseFrcData (js ''Alice FRC123'')) = {js ''scouterName'', js ''eventCode''}
   \<and> parseFrcData (js ''Alice FRC123'') (js ''eventCode'') = Some (js ''FRC123'')
   \<and> parseFrcData (js ''Alice FRC123'') (js ''matchLevel'') = None
   \<and> parseFrcData (js ''   '') = [js ''scouterName'' \<mapsto> []]"
proof -
  let ?A = "js ''Alice FRC123''"
  have t: "tokens ?A = [js ''Alice'', js ''FRC123'']"
    by (simp add: parse_eval)
  have b: "trim (js ''   '') = []"
    by (simp add: trim_def is_ws_def)
  have c1: "FRC_COLUMNS ! 1 = js ''eventCode''" and c2: "FRC_COLUMNS ! 2 = js ''matchLevel''"
    and tk: "set (take (Suc (Suc 0)) FRC_COLUMNS) = {js ''scouterName'', js ''eventCode''}"
    by (simp_all add: FRC_COLUMNS_def)
  note T1 = parse_total_keys_and_values[of ?A 1]
  note T2 = parse_total_keys_and_values[of ?A 2]
  note T3 = parse_total_keys_and_values[of "js ''   ''"]
  note dom1 = T1[THEN conjunct2, THEN conjunct2, THEN conjunct1]
  note at1 = T1[THEN conjunct2, THEN conjunct2, THEN conjunct2, THEN conjunct1]
  note at2 = T2[THEN conjunct2, THEN conjunct2, THEN conjunct2, THEN conjunct1]
  note blank3 = T3[THEN conjunct2, THEN conjunct2, THEN conjunct2, THEN conjunct2,
      THEN conjunct1]
  from dom1 t tk have w1: "dom (parseFrcData ?A) = {js ''scouterName'', js ''eventCode''}"
    by simp
  from at1 t c1 have w2: "parseFrcData ?A (js ''eventCode'') = Some (js ''FRC123'')"
    by simp
  from at2 t c2 have w3: "parseFrcData ?A (js ''matchLevel'') = None"
    by simp
  from blank3 b have w4: "parseFrcData (js ''   '') = [js ''scouterName'' \<mapsto> []]"
    by simp
  from w1 w2 w3 w4 show ?thesis by (intro conjI)
qed

text \<open>
  C9 as stated fails for a blank text: its one token is the empty text, so
  \<open>scouterName\<close>, for which the text has nothing, is a present key holding the empty
  text, and the result is not the empty map.
\<close>

theorem parse_blank_input_counterexample:
  "tokens [] = [[]]
   \<and> parseFrcData [] (js ''scouterName'') = Some []
   \<and> parseFrcData (js ''   '') (js ''scouterName'') = Some []
   \<and> parseFrcData [] \<noteq> Map.empty"
proof -
  have a: "tokens [] = [[]]" by (simp add: parse_eval)
  have b: "parseFrcData [] (js ''scouterName'') = Some []"
    by (simp add: parse_eval map_columns_def assign_col_def FRC_COLUMNS_def)
  have c: "parseFrcData (js ''   '') (js ''scouterName'') = Some []"
    by (simp add: parse_eval map_columns_def assign_col_def FRC_COLUMNS_def)
  have "parseFrcData [] \<noteq> Map.empty"
  proof
    assume "parseFrcData [] = Map.empty"
    then have "parseFrcData [] (js ''scouterName'') = None" by simp
    with b show False by simp
  qed
  with a b c show ?thesis by simp
qed

end
